theory Spec2Isabelle
  imports Complex_Main "HOL-Library.AList" "HOL-Library.Char_ord" "HOL-Library.List_Lexorder"
    "HOL-Library.Multiset"
begin

section \<open>Data model\<close>

text \<open>
  The module \<^verbatim>\<open>pyrsa/rdm/calc.py\<close> computes representational dissimilarity matrices.
  Numbers are modelled as exact reals: rounding, NaN and infinities of IEEE arithmetic are
  outside the model. A matrix is the list of its rows, all of one length; a vector is a
  list of reals.
\<close>

type_synonym vec = "real list"
type_synonym matrix = "real list list"

text \<open>
  A descriptor value is a number or a string. A descriptor array of the source is
  homogeneous, so the order between a number and a string is never consulted by the
  source; it is fixed here (numbers first) to obtain a linear order for \<^verbatim>\<open>np.unique\<close>.
\<close>

datatype label = Num int | Str string

instantiation label :: linorder
begin

fun less_eq_label :: "label \<Rightarrow> label \<Rightarrow> bool" where
  "less_eq_label (Num a) (Num b) = (a \<le> b)"
| "less_eq_label (Num a) (Str t) = True"
| "less_eq_label (Str s) (Num b) = False"
| "less_eq_label (Str s) (Str t) = (s \<le> t)"

definition less_label :: "label \<Rightarrow> label \<Rightarrow> bool" where
  "less_label x y = (x \<le> y \<and> \<not> y \<le> x)"

instance
proof
  fix x y z :: label
  show "(x < y) = (x \<le> y \<and> \<not> y \<le> x)"
    by (simp add: less_label_def)
  show "x \<le> x"
    by (cases x) simp_all
  show "x \<le> y \<Longrightarrow> y \<le> z \<Longrightarrow> x \<le> z"
    by (cases x; cases y; cases z) auto
  show "x \<le> y \<Longrightarrow> y \<le> x \<Longrightarrow> x = y"
    by (cases x; cases y) auto
  show "x \<le> y \<or> y \<le> x"
    by (cases x; cases y) auto
qed

end

text \<open>The exceptions the module and the operations it calls can raise.\<close>

datatype error =
    ValueError
  | AssertionError
  | KeyError
  | IndexError
  | TypeError
  | NotImplementedError
  | UnboundLocalError
  | LinAlgError

text \<open>Sequencing of calls that may raise: the first exception ends the computation.\<close>

fun ebind :: "error + 'a \<Rightarrow> ('a \<Rightarrow> error + 'b) \<Rightarrow> error + 'b" where
  "ebind (Inl e) f = Inl e"
| "ebind (Inr x) f = f x"

subsection \<open>Vectors and matrices\<close>

definition ncols :: "matrix \<Rightarrow> nat" where
  \<comment> \<open>\<^verbatim>\<open>shape[1]\<close>; a matrix without rows is taken to have no columns\<close>
  "ncols A = (case A of [] \<Rightarrow> 0 | r # _ \<Rightarrow> length r)"

definition vsub :: "vec \<Rightarrow> vec \<Rightarrow> vec" where
  "vsub a b = map2 (-) a b"

definition dot :: "vec \<Rightarrow> vec \<Rightarrow> real" where
  "dot a b = sum_list (map2 (*) a b)"

section \<open>The pairwise loops\<close>

text \<open>
  Three functions of the module fill a preallocated array by the same pair of loops:
  \<^verbatim>\<open>
  k = 0
  for i in <outer>:
      for j in range(i + 1, n):
          out[k] = <body i j>
          k += 1
  \<close>
  The state of the loops is the array and the running index \<open>k\<close>. The right-hand side
  is evaluated first and may raise; writing at an index beyond the array raises
  \<^verbatim>\<open>IndexError\<close>.
\<close>

fun pair_loop_inner ::
  "(nat \<Rightarrow> nat \<Rightarrow> error + 'a) \<Rightarrow> nat \<Rightarrow> nat list \<Rightarrow> 'a list \<times> nat \<Rightarrow> error + 'a list \<times> nat" where
  "pair_loop_inner body i [] (out, k) = Inr (out, k)"
| "pair_loop_inner body i (j # js) (out, k) =
     (case body i j of
        Inl e \<Rightarrow> Inl e
      | Inr v \<Rightarrow>
          if k < length out then pair_loop_inner body i js (out[k := v], Suc k)
          else Inl IndexError)"

fun pair_loop ::
  "(nat \<Rightarrow> nat \<Rightarrow> error + 'a) \<Rightarrow> nat \<Rightarrow> nat list \<Rightarrow> 'a list \<times> nat \<Rightarrow> error + 'a list \<times> nat" where
  "pair_loop body n [] s = Inr s"
| "pair_loop body n (i # is) s =
     (case pair_loop_inner body i [Suc i..<n] s of
        Inl e \<Rightarrow> Inl e
      | Inr s' \<Rightarrow> pair_loop body n is s')"

text \<open>
  \<^verbatim>\<open>
  def _calc_pairwise_differences(measurements):
      n, m = measurements.shape
      diff = np.zeros((int(n * (n - 1) / 2), m))
      k = 0
      for i in range(measurements.shape[0]):
          for j in range(i+1, measurements.shape[0]):
              diff[k] = measurements[i] - measurements[j]
              k += 1
      return diff
  \<close>
\<close>

definition calc_pairwise_differences :: "matrix \<Rightarrow> error + matrix" where
  "calc_pairwise_differences measurements =
     (let n = length measurements;
          m = ncols measurements;
          diff = replicate (n * (n - 1) div 2) (replicate m 0)
      in ebind
           (pair_loop (\<lambda>i j. Inr (vsub (measurements ! i) (measurements ! j))) n [0..<n] (diff, 0))
           (\<lambda>(diff', k). Inr diff'))"

text \<open>
  The canonical enumeration of the data model: \<open>i\<close> from \<open>0\<close> to \<open>C - 2\<close>, \<open>j\<close> from
  \<open>i + 1\<close> to \<open>C - 1\<close>, one running index over the pairs.
\<close>

definition canonical_pairs :: "nat \<Rightarrow> (nat \<times> nat) list" where
  "canonical_pairs c = concat (map (\<lambda>i. map (Pair i) [Suc i..<c]) [0..<c - 1])"

section \<open>Noise specifications and their validation\<close>

text \<open>
  The noise argument of the module is \<^verbatim>\<open>None\<close>, a two-dimensional array, a list of noise
  arguments, a dictionary of noise arguments, or any other object. A dictionary is kept
  as the list of its items in insertion order.
\<close>

datatype noise =
    NoNoise
  | Arr2 matrix
  | NoiseList "noise list"
  | NoiseDict "(label \<times> noise) list"
  | Other

definition shape :: "matrix \<Rightarrow> nat \<times> nat" where
  "shape A = (length A, ncols A)"

fun sequence_e :: "(error + 'a) list \<Rightarrow> error + 'a list" where
  "sequence_e [] = Inr []"
| "sequence_e (Inl e # rs) = Inl e"
| "sequence_e (Inr x # rs) = (case sequence_e rs of Inl e \<Rightarrow> Inl e | Inr xs \<Rightarrow> Inr (x # xs))"

text \<open>
  The loop \<^verbatim>\<open>for i in range(len(noise)): noise[i] = _check_noise(noise[i], n_channel)\<close>
  run on a dictionary: \<^verbatim>\<open>noise[i]\<close> looks up the integer key \<open>i\<close>. The second argument
  holds the checks of the dictionary's values, the third the dictionary as updated so far.
\<close>

fun check_noise_keys ::
  "nat list \<Rightarrow> (label \<times> (error + noise)) list \<Rightarrow> (label \<times> noise) list \<Rightarrow> error + (label \<times> noise) list" where
  "check_noise_keys [] checked items = Inr items"
| "check_noise_keys (i # is) checked items =
     (case map_of checked (Num (int i)) of
        None \<Rightarrow> Inl KeyError
      | Some (Inl e) \<Rightarrow> Inl e
      | Some (Inr v) \<Rightarrow> check_noise_keys is checked (AList.update (Num (int i)) v items))"

text \<open>
  \<^verbatim>\<open>
  def _check_noise(noise, n_channel):
      if noise is None:
          pass
      elif isinstance(noise, np.ndarray) and noise.ndim == 2:
          assert np.all(noise.shape == (n_channel, n_channel))
      elif isinstance(noise, Iterable):
          for i in range(len(noise)):
              noise[i] = _check_noise(noise[i], n_channel)
      elif isinstance(noise, dict):
          for key in noise.keys():
              noise[key] = _check_noise(noise[key], n_channel)
      else:
          raise ValueError('noise(s) must have shape n_channel x n_channel')
      return noise
  \<close>
  A dictionary is an instance of \<^verbatim>\<open>collections.abc.Iterable\<close>, so it takes the third
  branch and the fourth is never reached.
\<close>

fun check_noise :: "noise \<Rightarrow> nat \<Rightarrow> error + noise" where
  "check_noise NoNoise n_channel = Inr NoNoise"
| "check_noise (Arr2 a) n_channel =
     (if shape a = (n_channel, n_channel) then Inr (Arr2 a) else Inl AssertionError)"
| "check_noise (NoiseList ns) n_channel =
     (case sequence_e (map (\<lambda>x. check_noise x n_channel) ns) of
        Inl e \<Rightarrow> Inl e
      | Inr ns' \<Rightarrow> Inr (NoiseList ns'))"
| "check_noise (NoiseDict items) n_channel =
     (case check_noise_keys [0..<length items]
             (map (\<lambda>(k, v). (k, check_noise v n_channel)) items) items of
        Inl e \<Rightarrow> Inl e
      | Inr items' \<Rightarrow> Inr (NoiseDict items'))"
| "check_noise Other n_channel = Inl ValueError"

section \<open>The dataset container\<close>

text \<open>
  The dataset class lives in \<^verbatim>\<open>pyrsa.data\<close>, outside the module. Its fields are the ones
  the module reads and writes.
\<close>

datatype dval = DLabel label | DString string | DTimes "real list" | DNoise noise

record dataset =
  measurements :: matrix
  n_channel :: nat
  descriptors :: "(string \<times> dval) list"
  obs_descriptors :: "(string \<times> label list) list"

definition np_unique :: "label list \<Rightarrow> label list" where
  \<comment> \<open>\<^verbatim>\<open>np.unique\<close>: the sorted distinct values\<close>
  "np_unique xs = sort (remdups xs)"

definition select :: "bool list \<Rightarrow> 'a list \<Rightarrow> 'a list" where
  \<comment> \<open>indexing with a boolean array\<close>
  "select msk xs = map snd (filter fst (zip msk xs))"

definition col_mean :: "nat \<Rightarrow> matrix \<Rightarrow> vec" where
  \<comment> \<open>\<^verbatim>\<open>mean(axis=0)\<close> of a matrix with \<open>m\<close> columns\<close>
  "col_mean m A = map (\<lambda>c. sum_list (map (\<lambda>r. r ! c) A) / real (length A)) [0..<m]"

text \<open>
  Modelled from the spec: \<^verbatim>\<open>average_dataset_by\<close> of \<^verbatim>\<open>pyrsa.data\<close> is not part of the
  module. It groups the observations by the value of the descriptor and returns the
  arithmetic mean of every group, the distinct values (here in \<^verbatim>\<open>np.unique\<close> order) and
  the group sizes. A descriptor the dataset does not have is a \<^verbatim>\<open>KeyError\<close>.
\<close>

definition average_dataset_by :: "dataset \<Rightarrow> string \<Rightarrow> error + matrix \<times> label list \<times> nat list" where
  "average_dataset_by ds key =
     (case map_of (obs_descriptors ds) key of
        None \<Rightarrow> Inl KeyError
      | Some desc \<Rightarrow>
          let vals = np_unique desc
          in Inr (map (\<lambda>v. col_mean (n_channel ds) (select (map ((=) v) desc) (measurements ds))) vals,
                  vals,
                  map (count_list desc) vals))"

text \<open>
  Modelled from the spec: \<^verbatim>\<open>subset_obs(key, value)\<close> returns the dataset of the
  observations whose descriptor value is \<open>value\<close> (one of the values, when an array is
  given), every observation descriptor cut down alike.
\<close>

definition subset_obs :: "dataset \<Rightarrow> string \<Rightarrow> label list \<Rightarrow> error + dataset" where
  "subset_obs ds key vals =
     (case map_of (obs_descriptors ds) key of
        None \<Rightarrow> Inl KeyError
      | Some desc \<Rightarrow>
          let msk = map (\<lambda>l. l \<in> set vals) desc
          in Inr (ds\<lparr>measurements := select msk (measurements ds),
                      obs_descriptors := map (\<lambda>(k, v). (k, select msk v)) (obs_descriptors ds)\<rparr>))"

text \<open>
  Modelled from the spec: \<^verbatim>\<open>sort_by(key)\<close> sorts the observations of the dataset by the
  descriptor, in place; the model returns the sorted dataset. Observations with equal
  descriptor values keep their order.
\<close>

definition argsort :: "label list \<Rightarrow> nat list" where
  "argsort desc = map snd (sort_key fst (zip desc [0..<length desc]))"

definition sort_by :: "dataset \<Rightarrow> string \<Rightarrow> error + dataset" where
  "sort_by ds key =
     (case map_of (obs_descriptors ds) key of
        None \<Rightarrow> Inl KeyError
      | Some desc \<Rightarrow>
          let order = argsort desc
          in Inr (ds\<lparr>measurements := map ((!) (measurements ds)) order,
                      obs_descriptors := map (\<lambda>(k, v). (k, map ((!) v) order)) (obs_descriptors ds)\<rparr>))"

section \<open>The RDM container\<close>

text \<open>
  What an estimator hands to the container for one RDM: a condensed vector, a full
  square matrix, or the scalar NaN that \<^verbatim>\<open>mean(axis=0)\<close> returns for an empty array.
\<close>

datatype dissim = Condensed vec | Square matrix | NotANumber

text \<open>
  Modelled from the spec: the class \<^verbatim>\<open>RDMs\<close> of \<^verbatim>\<open>pyrsa.rdm.rdms\<close> is not part of the
  module. It stores the dissimilarities (one entry per RDM), the measure tag, the RDM-level
  descriptors, the pattern descriptors and further descriptors.
\<close>

record rdms =
  dissimilarities :: "dissim list"
  dissimilarity_measure :: string
  rdm_descriptors :: "(string \<times> dval) list"
  pattern_descriptors :: "(string \<times> label list) list"
  more_descriptors :: "(string \<times> dval) list"

definition RDMs :: "dissim \<Rightarrow> string \<Rightarrow> (string \<times> dval) list \<Rightarrow> (string \<times> dval) list \<Rightarrow> rdms" where
  \<comment> \<open>the constructor, called with \<^verbatim>\<open>dissimilarities=np.array([rdm])\<close>; the last two
      arguments are \<^verbatim>\<open>descriptors\<close> and \<^verbatim>\<open>rdm_descriptors\<close>\<close>
  "RDMs rdm tag descs rdm_descs =
     \<lparr>dissimilarities = [rdm], dissimilarity_measure = tag, rdm_descriptors = rdm_descs,
      pattern_descriptors = [], more_descriptors = descs\<rparr>"

text \<open>
  Modelled from the spec: \<^verbatim>\<open>concat\<close> merges a sequence of results into one collection,
  preserving order. The merged collection keeps the tag and descriptors of the first
  result; an empty sequence has no first result (\<^verbatim>\<open>IndexError\<close>).
\<close>

definition concat_rdms :: "rdms list \<Rightarrow> error + rdms" where
  "concat_rdms rs =
     (case rs of
        [] \<Rightarrow> Inl IndexError
      | r # _ \<Rightarrow> Inr (r\<lparr>dissimilarities := concat (map dissimilarities rs)\<rparr>))"

section \<open>Helpers of the estimators\<close>

definition center :: "vec \<Rightarrow> vec" where
  \<comment> \<open>a vector minus the mean of its entries\<close>
  "center r = map (\<lambda>x. x - sum_list r / real (length r)) r"

definition mat_vec :: "matrix \<Rightarrow> vec \<Rightarrow> vec" where
  "mat_vec A x = map (\<lambda>r. dot r x) A"

definition matmul :: "matrix \<Rightarrow> matrix \<Rightarrow> matrix" where
  "matmul A B = map (\<lambda>r. map (\<lambda>c. dot r c) (transpose B)) A"

definition mat_add :: "matrix \<Rightarrow> matrix \<Rightarrow> matrix" where
  "mat_add A B = map2 (\<lambda>r s. map2 (+) r s) A B"

text \<open>
  \<^verbatim>\<open>np.einsum('ij,ij->i', A, B)\<close>: the dot products of corresponding rows. An operand
  with one row is broadcast; other row counts that differ raise \<^verbatim>\<open>ValueError\<close>.
\<close>

definition einsum_ij_ij_i :: "matrix \<Rightarrow> matrix \<Rightarrow> error + vec" where
  "einsum_ij_ij_i A B =
     (if length A = length B then Inr (map2 dot A B)
      else if length A = 1 then Inr (map (dot (hd A)) B)
      else if length B = 1 then Inr (map (\<lambda>a. dot a (hd B)) A)
      else Inl ValueError)"

text \<open>\<^verbatim>\<open>np.einsum('kj,jk->k', A, B)\<close>: row \<open>k\<close> of \<open>A\<close> times column \<open>k\<close> of \<open>B\<close>.\<close>

definition einsum_kj_jk_k :: "matrix \<Rightarrow> matrix \<Rightarrow> error + vec" where
  "einsum_kj_jk_k A B = einsum_ij_ij_i A (transpose B)"

text \<open>
  \<^verbatim>\<open>
  def _parse_input(dataset, descriptor):
      if descriptor is None:
          measurements = dataset.measurements
          desc = np.arange(measurements.shape[0])
          descriptor = 'pattern'
      else:
          measurements, desc, _ = average_dataset_by(dataset, descriptor)
      return measurements, desc, descriptor
  \<close>
\<close>

definition arange :: "nat \<Rightarrow> label list" where
  "arange n = map (\<lambda>i. Num (int i)) [0..<n]"

definition parse_input :: "dataset \<Rightarrow> string option \<Rightarrow> error + matrix \<times> label list \<times> string" where
  "parse_input ds descriptor =
     (case descriptor of
        None \<Rightarrow> Inr (measurements ds, arange (length (measurements ds)), ''pattern'')
      | Some d \<Rightarrow> ebind (average_dataset_by ds d) (\<lambda>(ms, desc, _). Inr (ms, desc, d)))"

definition set_pattern :: "string \<Rightarrow> label list \<Rightarrow> rdms \<Rightarrow> rdms" where
  \<comment> \<open>\<^verbatim>\<open>rdm.pattern_descriptors[descriptor] = desc\<close>\<close>
  "set_pattern descriptor desc r =
     r\<lparr>pattern_descriptors := AList.update descriptor desc (pattern_descriptors r)\<rparr>"

definition set_descriptor :: "string \<Rightarrow> dval \<Rightarrow> rdms \<Rightarrow> rdms" where
  \<comment> \<open>\<^verbatim>\<open>rdm.descriptors[key] = v\<close>\<close>
  "set_descriptor key v r = r\<lparr>more_descriptors := AList.update key v (more_descriptors r)\<rparr>"

subsection \<open>The fold partitioner\<close>

text \<open>
  Assignment through a boolean array, \<^verbatim>\<open>a[msk] = vals\<close>: the selected places take the
  values in order. One value is broadcast; any other number of values than selected places
  raises \<^verbatim>\<open>ValueError\<close>.
\<close>

fun put_mask :: "'a list \<Rightarrow> bool list \<Rightarrow> 'a list \<Rightarrow> 'a list" where
  "put_mask (x # xs) (True # bs) (v # vs) = v # put_mask xs bs vs"
| "put_mask (x # xs) (False # bs) vs = x # put_mask xs bs vs"
| "put_mask xs bs vs = xs"

definition assign_mask :: "'a list \<Rightarrow> bool list \<Rightarrow> 'a list \<Rightarrow> error + 'a list" where
  "assign_mask xs msk vals =
     (if length (filter id msk) = length vals then Inr (put_mask xs msk vals)
      else if length vals = 1 then Inr (put_mask xs msk (replicate (length (filter id msk)) (hd vals)))
      else Inl ValueError)"

text \<open>
  \<^verbatim>\<open>
  def _gen_default_cv_descriptor(dataset, descriptor):
      desc = dataset.obs_descriptors[descriptor]
      values, counts = np.unique(desc, return_counts=True)
      assert np.all(counts == counts[0]), (
          'cv_descriptor generation failed:\n'
          + 'different number of observations per pattern')
      n_repeats = counts[0]
      cv_descriptor = np.zeros_like(desc)
      for i_val in values:
          cv_descriptor[desc == i_val] = np.arange(n_repeats)
      return cv_descriptor
  \<close>
  The fold labels are modelled as numbers; the conversion of \<^verbatim>\<open>np.arange\<close> to the element
  type of a string array is outside the model.
\<close>

fun assign_folds :: "label list \<Rightarrow> nat \<Rightarrow> label list \<Rightarrow> label list \<Rightarrow> error + label list" where
  "assign_folds desc n_repeats [] cv = Inr cv"
| "assign_folds desc n_repeats (i_val # vals) cv =
     (case assign_mask cv (map (\<lambda>d. d = i_val) desc) (arange n_repeats) of
        Inl e \<Rightarrow> Inl e
      | Inr cv' \<Rightarrow> assign_folds desc n_repeats vals cv')"

definition gen_default_cv_descriptor :: "dataset \<Rightarrow> string \<Rightarrow> error + label list" where
  "gen_default_cv_descriptor ds descriptor =
     (case map_of (obs_descriptors ds) descriptor of
        None \<Rightarrow> Inl KeyError
      | Some desc \<Rightarrow>
          let vals = np_unique desc;
              counts = map (count_list desc) vals
          in case counts of
               [] \<Rightarrow> Inl IndexError
             | n_repeats # _ \<Rightarrow>
                 if list_all (\<lambda>c. c = n_repeats) counts
                 then assign_folds desc n_repeats vals (replicate (length desc) (Num 0))
                 else Inl AssertionError)"

subsection \<open>Cross-validated magnitude\<close>

text \<open>
  \<^verbatim>\<open>
  def _calc_magnitude_cv(measurements, subtract_mean=False):
      n_observation, n_channels = measurements.shape
      squared_magnitude_estimates = np.zeros(n_observation)
      observation_indices = np.arange(n_observation)
      for groupA_index in observation_indices:
          groupB_indices = np.setdiff1d(observation_indices, groupA_index)
          groupA_mean = measurements[groupA_index]
          groupB_mean = measurements[groupB_indices].mean(axis=0)
          if subtract_mean:
              groupA_mean = groupA_mean - groupA_mean.mean()
              groupB_mean = groupB_mean - groupB_mean.mean()
          squared_magnitude_estimates[groupA_index] = np.dot(groupA_mean, groupB_mean)
      squared_magnitude = np.mean(squared_magnitude_estimates)
      magnitude_est = np.sign(squared_magnitude) * np.sqrt(abs(squared_magnitude))
      return magnitude_est
  \<close>
\<close>

definition calc_magnitude_cv :: "matrix \<Rightarrow> bool \<Rightarrow> real" where
  "calc_magnitude_cv ms subtract_mean =
     (let n_observation = length ms;
          n_channels = ncols ms;
          estimates =
            map (\<lambda>a.
                  let groupA_mean = ms ! a;
                      groupB_mean = col_mean n_channels
                                      (map ((!) ms) (filter (\<lambda>b. b \<noteq> a) [0..<n_observation]))
                  in if subtract_mean then dot (center groupA_mean) (center groupB_mean)
                     else dot groupA_mean groupB_mean)
              [0..<n_observation];
          squared_magnitude = sum_list estimates / real n_observation
      in sgn squared_magnitude * sqrt \<bar>squared_magnitude\<bar>)"

section \<open>The estimators without cross-validation\<close>

text \<open>
  \<^verbatim>\<open>
  def calc_rdm_euclid(dataset, descriptor=None):
      measurements, desc, descriptor = _parse_input(dataset, descriptor)
      diff = _calc_pairwise_differences(measurements)
      rdm = np.einsum('ij,ij->i', diff, diff) / measurements.shape[1]
      rdm = RDMs(dissimilarities=np.array([rdm]),
                 dissimilarity_measure='euclidean',
                 rdm_descriptors=deepcopy(dataset.descriptors))
      rdm.pattern_descriptors[descriptor] = desc
      return rdm
  \<close>
\<close>

definition calc_rdm_euclid :: "dataset \<Rightarrow> string option \<Rightarrow> error + rdms" where
  "calc_rdm_euclid ds descriptor =
     ebind (parse_input ds descriptor) (\<lambda>(ms, desc, descriptor).
     ebind (calc_pairwise_differences ms) (\<lambda>diff.
     ebind (einsum_ij_ij_i diff diff) (\<lambda>e.
       let rdm = map (\<lambda>x. x / real (ncols ms)) e
       in Inr (set_pattern descriptor desc
                 (RDMs (Condensed rdm) ''euclidean'' [] (descriptors ds))))))"

text \<open>
  \<^verbatim>\<open>
  def calc_rdm_correlation(dataset, descriptor=None):
      ma, desc, descriptor = _parse_input(dataset, descriptor)
      ma = ma - ma.mean(axis=1, keepdims=True)
      ma /= np.sqrt(np.einsum('ij,ij->i', ma, ma))[:, None]
      rdm = 1 - np.einsum('ik,jk', ma, ma)
      rdm = RDMs(dissimilarities=np.array([rdm]),
                 dissimilarity_measure='correlation',
                 rdm_descriptors=deepcopy(dataset.descriptors))
      rdm.pattern_descriptors[descriptor] = desc
      return rdm
  \<close>
  \<^verbatim>\<open>np.einsum('ik,jk', ma, ma)\<close> is the square matrix of all dot products of rows, so
  the array handed to the container is square, not condensed.
\<close>

definition calc_rdm_correlation :: "dataset \<Rightarrow> string option \<Rightarrow> error + rdms" where
  "calc_rdm_correlation ds descriptor =
     ebind (parse_input ds descriptor) (\<lambda>(ma, desc, descriptor).
       let ma1 = map center ma;
           ma2 = map (\<lambda>r. map (\<lambda>x. x / sqrt (dot r r)) r) ma1;
           rdm = map (\<lambda>a. map (\<lambda>b. 1 - dot a b) ma2) ma2
       in Inr (set_pattern descriptor desc
                 (RDMs (Square rdm) ''correlation'' [] (descriptors ds))))"

text \<open>
  \<^verbatim>\<open>
  def calc_rdm_correlation_cv(dataset, descriptor=None):
      measurement_avgs, desc, descriptor = _parse_input(dataset, descriptor)
      cv_magnitude_centered = []
      for d in desc:
          data_subset = dataset.subset_obs(descriptor, d)
          cv_magnitude_centered.append(
              _calc_magnitude_cv(data_subset.measurements, subtract_mean=True))
      measurement_avgs_centered = (measurement_avgs -
              measurement_avgs.mean(axis=-1, keepdims=True))
      n_cond = len(desc)
      rdm = np.empty(comb(n_cond, 2, exact=True))
      k = 0
      for i_cond in range(n_cond - 1):
          for j_cond in range(i_cond + 1, n_cond):
              corr_numerator = np.dot(
                      measurement_avgs_centered[i_cond],
                      measurement_avgs_centered[j_cond])
              corr_denominator = (cv_magnitude_centered[i_cond] *
                      cv_magnitude_centered[j_cond])
              rdm[k] = 1 - (corr_numerator / corr_denominator)
              k += 1
      rdm = RDMs(dissimilarities=np.array([rdm]),
                 dissimilarity_measure='correlation_cv',
                 descriptors=dataset.descriptors)
      rdm.pattern_descriptors[descriptor] = desc
      return rdm
  \<close>
  There is no test of \<^verbatim>\<open>descriptor is None\<close>: \<^verbatim>\<open>_parse_input\<close> replaces \<^verbatim>\<open>None\<close> by the
  name \<^verbatim>\<open>'pattern'\<close>, which is then looked up among the observation descriptors.
\<close>

definition calc_rdm_correlation_cv :: "dataset \<Rightarrow> string option \<Rightarrow> error + rdms" where
  "calc_rdm_correlation_cv ds descriptor =
     ebind (parse_input ds descriptor) (\<lambda>(measurement_avgs, desc, descriptor).
     ebind (sequence_e
              (map (\<lambda>d. ebind (subset_obs ds descriptor [d])
                           (\<lambda>data_subset. Inr (calc_magnitude_cv (measurements data_subset) True)))
                 desc)) (\<lambda>cv_magnitude_centered.
       let measurement_avgs_centered = map center measurement_avgs;
           n_cond = length desc
       in ebind
            (pair_loop
               (\<lambda>i_cond j_cond.
                  Inr (1 - dot (measurement_avgs_centered ! i_cond) (measurement_avgs_centered ! j_cond)
                           / (cv_magnitude_centered ! i_cond * cv_magnitude_centered ! j_cond)))
               n_cond [0..<n_cond - 1] (replicate (n_cond choose 2) 0, 0))
            (\<lambda>(rdm, k).
               Inr (set_pattern descriptor desc
                      (RDMs (Condensed rdm) ''correlation_cv'' (descriptors ds) [])))))"

text \<open>
  \<^verbatim>\<open>
  def calc_rdm_mahalanobis(dataset, descriptor=None, noise=None):
      if noise is None:
          rdm = calc_rdm_euclid(dataset, descriptor)
      else:
          measurements, desc, descriptor = _parse_input(dataset, descriptor)
          noise = _check_noise(noise, dataset.n_channel)
          diff = _calc_pairwise_differences(measurements)
          diff2 = (noise @ diff.T).T
          rdm = np.einsum('ij,ij->i', diff, diff2) / measurements.shape[1]
          rdm = RDMs(dissimilarities=np.array([rdm]),
                     dissimilarity_measure='Mahalanobis',
                     rdm_descriptors=deepcopy(dataset.descriptors))
          rdm.pattern_descriptors[descriptor] = desc
          rdm.descriptors['noise'] = noise
      return rdm
  \<close>
  The matrix product with a noise argument that is not one matrix ends in a
  \<^verbatim>\<open>ValueError\<close> of numpy.
\<close>

definition calc_rdm_mahalanobis :: "dataset \<Rightarrow> string option \<Rightarrow> noise \<Rightarrow> error + rdms" where
  "calc_rdm_mahalanobis ds descriptor noise =
     (if noise = NoNoise then calc_rdm_euclid ds descriptor
      else
        ebind (parse_input ds descriptor) (\<lambda>(ms, desc, descriptor).
        ebind (check_noise noise (n_channel ds)) (\<lambda>noise.
        ebind (calc_pairwise_differences ms) (\<lambda>diff.
        ebind (case noise of
                 Arr2 a \<Rightarrow> Inr (transpose (matmul a (transpose diff)))
               | _ \<Rightarrow> Inl ValueError) (\<lambda>diff2.
        ebind (einsum_ij_ij_i diff diff2) (\<lambda>e.
          let rdm = map (\<lambda>x. x / real (ncols ms)) e
          in Inr (set_descriptor ''noise'' (DNoise noise)
                    (set_pattern descriptor desc
                       (RDMs (Condensed rdm) ''Mahalanobis'' [] (descriptors ds))))))))))"

text \<open>
  \<^verbatim>\<open>
  def calc_rdm_poisson(dataset, descriptor=None, prior_lambda=1,
                       prior_weight=0.1):
      measurements, desc, descriptor = _parse_input(dataset, descriptor)
      measurements = (measurements + prior_lambda * prior_weight) \
          / (1 + prior_weight)
      diff = _calc_pairwise_differences(measurements)
      diff_log = _calc_pairwise_differences(np.log(measurements))
      rdm = np.einsum('ij,ij->i', diff, diff_log) / measurements.shape[1]
      rdm = RDMs(dissimilarities=np.array([rdm]),
                 dissimilarity_measure='poisson',
                 rdm_descriptors=deepcopy(dataset.descriptors))
      rdm.pattern_descriptors[descriptor] = desc
      return rdm
  \<close>
\<close>

definition shrink :: "real \<Rightarrow> real \<Rightarrow> matrix \<Rightarrow> matrix" where
  \<comment> \<open>\<^verbatim>\<open>(measurements + prior_lambda * prior_weight) / (1 + prior_weight)\<close>\<close>
  "shrink prior_lambda prior_weight ms =
     map (map (\<lambda>x. (x + prior_lambda * prior_weight) / (1 + prior_weight))) ms"

definition calc_rdm_poisson :: "dataset \<Rightarrow> string option \<Rightarrow> real \<Rightarrow> real \<Rightarrow> error + rdms" where
  "calc_rdm_poisson ds descriptor prior_lambda prior_weight =
     ebind (parse_input ds descriptor) (\<lambda>(ms0, desc, descriptor).
       let ms = shrink prior_lambda prior_weight ms0
       in ebind (calc_pairwise_differences ms) (\<lambda>diff.
          ebind (calc_pairwise_differences (map (map ln) ms)) (\<lambda>diff_log.
          ebind (einsum_ij_ij_i diff diff_log) (\<lambda>e.
            let rdm = map (\<lambda>x. x / real (ncols ms)) e
            in Inr (set_pattern descriptor desc
                      (RDMs (Condensed rdm) ''poisson'' [] (descriptors ds)))))))"

section \<open>The cross-validated estimators\<close>

text \<open>
  Crossnobis and the cross-validated Poisson estimator begin alike:
  \<^verbatim>\<open>
      if descriptor is None:
          raise ValueError('descriptor must be a string! Crossvalidation' +
                           'requires multiple measurements to be grouped')
      if cv_descriptor is None:
          cv_desc = _gen_default_cv_descriptor(dataset, descriptor)
          dataset.obs_descriptors['cv_desc'] = cv_desc
          cv_descriptor = 'cv_desc'
      dataset.sort_by(descriptor)
  \<close>
  Both statements after the test change the dataset of the caller, so the model returns
  the dataset beside the outcome: the names of the two descriptors, or the exception.
\<close>

definition prepare_cv ::
  "dataset \<Rightarrow> string option \<Rightarrow> string option \<Rightarrow> (error + string \<times> string) \<times> dataset" where
  "prepare_cv ds descriptor cv_descriptor =
     (case descriptor of
        None \<Rightarrow> (Inl ValueError, ds)
      | Some d \<Rightarrow>
          (case (case cv_descriptor of
                   None \<Rightarrow>
                     (case gen_default_cv_descriptor ds d of
                        Inl e \<Rightarrow> Inl e
                      | Inr cv_desc \<Rightarrow>
                          Inr (ds\<lparr>obs_descriptors :=
                                     AList.update ''cv_desc'' cv_desc (obs_descriptors ds)\<rparr>,
                               ''cv_desc''))
                 | Some c \<Rightarrow> Inr (ds, c)) of
             Inl e \<Rightarrow> (Inl e, ds)
           | Inr (ds1, c) \<Rightarrow>
               (case sort_by ds1 d of
                  Inl e \<Rightarrow> (Inl e, ds1)
                | Inr ds2 \<Rightarrow> (Inr (d, c), ds2))))"

definition cv_folds_of :: "dataset \<Rightarrow> string \<Rightarrow> error + label list" where
  \<comment> \<open>\<^verbatim>\<open>cv_folds = np.unique(np.array(dataset.obs_descriptors[cv_descriptor]))\<close>\<close>
  "cv_folds_of ds cv_descriptor =
     (case map_of (obs_descriptors ds) cv_descriptor of
        None \<Rightarrow> Inl KeyError
      | Some folds \<Rightarrow> Inr (np_unique folds))"

definition mean :: "vec \<Rightarrow> real" where
  "mean v = sum_list v / real (length v)"

text \<open>
  One round of the leave-one-out loop of crossnobis (noise absent or one matrix):
  \<^verbatim>\<open>
          for i_fold in range(len(cv_folds)):
              fold = cv_folds[i_fold]
              data_test = dataset.subset_obs(cv_descriptor, fold)
              data_train = dataset.subset_obs(cv_descriptor,
                                              np.setdiff1d(cv_folds, fold))
              measurements_train, _, _ = \
                  average_dataset_by(data_train, descriptor)
              measurements_test, _, _ = \
                  average_dataset_by(data_test, descriptor)
              n_cond = measurements_train.shape[0]
              n_channel = measurements_train.shape[1]
              rdm = np.empty(int(n_cond * (n_cond-1) / 2))
              k = 0
              for i_cond in range(n_cond - 1):
                  for j_cond in range(i_cond + 1, n_cond):
                      diff_train = measurements_train[i_cond] \
                          - measurements_train[j_cond]
                      diff_test = measurements_test[i_cond] \
                          - measurements_test[j_cond]
                      if noise is None:
                          rdm[k] = np.mean(diff_train * diff_test)
                      else:
                          rdm[k] = np.mean(diff_train
                                           * np.matmul(noise, diff_test))
                      k += 1
              rdms.append(rdm)
  \<close>
  Reading a row of the test matrix that it does not have raises \<^verbatim>\<open>IndexError\<close>.
\<close>

definition crossnobis_fold ::
  "dataset \<Rightarrow> string \<Rightarrow> matrix option \<Rightarrow> string \<Rightarrow> label list \<Rightarrow> label \<Rightarrow> error + vec" where
  "crossnobis_fold ds descriptor noise cv_descriptor cv_folds fld =
     ebind (subset_obs ds cv_descriptor [fld]) (\<lambda>data_test.
     ebind (subset_obs ds cv_descriptor (filter (\<lambda>f. f \<noteq> fld) cv_folds)) (\<lambda>data_train.
     ebind (average_dataset_by data_train descriptor) (\<lambda>(measurements_train, _, _).
     ebind (average_dataset_by data_test descriptor) (\<lambda>(measurements_test, _, _).
       let n_cond = length measurements_train
       in ebind
            (pair_loop
               (\<lambda>i_cond j_cond.
                  if j_cond < length measurements_test then
                    let diff_train = vsub (measurements_train ! i_cond) (measurements_train ! j_cond);
                        diff_test = vsub (measurements_test ! i_cond) (measurements_test ! j_cond)
                    in Inr (case noise of
                              None \<Rightarrow> mean (map2 (*) diff_train diff_test)
                            | Some a \<Rightarrow> mean (map2 (*) diff_train (mat_vec a diff_test)))
                  else Inl IndexError)
               n_cond [0..<n_cond - 1] (replicate (n_cond * (n_cond - 1) div 2) 0, 0))
            (\<lambda>(rdm, k). Inr rdm)))))"

text \<open>
  \<^verbatim>\<open>
  def _calc_rdm_crossnobis_single(measurements1, measurements2, noise):
      diff_1 = _calc_pairwise_differences(measurements1)
      diff_2 = _calc_pairwise_differences(measurements2)
      diff_2 = noise @ diff_2.transpose()
      rdm = np.einsum('kj,jk->k', diff_1, diff_2) / measurements1.shape[1]
      return rdm
  \<close>
\<close>

definition calc_rdm_crossnobis_single :: "matrix \<Rightarrow> matrix \<Rightarrow> matrix \<Rightarrow> error + vec" where
  "calc_rdm_crossnobis_single measurements1 measurements2 noise =
     ebind (calc_pairwise_differences measurements1) (\<lambda>diff_1.
     ebind (calc_pairwise_differences measurements2) (\<lambda>diff_2.
     ebind (einsum_kj_jk_k diff_1 (matmul noise (transpose diff_2))) (\<lambda>e.
       Inr (map (\<lambda>x. x / real (ncols measurements1)) e))))"

text \<open>
  The branch of crossnobis for a list of noises. \<^verbatim>\<open>np.linalg.inv\<close> is a parameter of the
  model (\<open>minv\<close>); an item of the noise that is not one matrix is taken to make it raise.
  \<^verbatim>\<open>
          measurements = []
          variances = []
          for i_fold in range(len(cv_folds)):
              data = dataset.subset_obs(cv_descriptor, cv_folds[i_fold])
              measurements.append(average_dataset_by(data, descriptor)[0])
              variances.append(np.linalg.inv(noise[i_fold]))
          for i_fold in range(len(cv_folds)):
              for j_fold in range(i_fold + 1, len(cv_folds)):
                  if i_fold != j_fold:
                      rdm = _calc_rdm_crossnobis_single(
                          measurements[i_fold], measurements[j_fold],
                          np.linalg.inv(variances[i_fold]
                                        + variances[j_fold]))
                      rdms.append(rdm)
  \<close>
\<close>

definition noise_item :: "noise \<Rightarrow> nat \<Rightarrow> error + noise" where
  \<comment> \<open>\<^verbatim>\<open>noise[i]\<close> for a list or a dictionary\<close>
  "noise_item noise i =
     (case noise of
        NoiseList ns \<Rightarrow> if i < length ns then Inr (ns ! i) else Inl IndexError
      | NoiseDict items \<Rightarrow>
          (case map_of items (Num (int i)) of None \<Rightarrow> Inl KeyError | Some v \<Rightarrow> Inr v)
      | _ \<Rightarrow> Inl TypeError)"

definition linalg_inv :: "(matrix \<Rightarrow> error + matrix) \<Rightarrow> noise \<Rightarrow> error + matrix" where
  "linalg_inv minv nz = (case nz of Arr2 a \<Rightarrow> minv a | _ \<Rightarrow> Inl LinAlgError)"

fun crossnobis_collect ::
  "(matrix \<Rightarrow> error + matrix) \<Rightarrow> dataset \<Rightarrow> string \<Rightarrow> noise \<Rightarrow> string \<Rightarrow> label list \<Rightarrow>
   nat list \<Rightarrow> matrix list \<times> matrix list \<Rightarrow> error + matrix list \<times> matrix list" where
  "crossnobis_collect minv ds descriptor noise cv_descriptor cv_folds [] (ms, variances) =
     Inr (ms, variances)"
| "crossnobis_collect minv ds descriptor noise cv_descriptor cv_folds (i_fold # rest) (ms, variances) =
     (case subset_obs ds cv_descriptor [cv_folds ! i_fold] of
        Inl e \<Rightarrow> Inl e
      | Inr data \<Rightarrow>
     (case average_dataset_by data descriptor of
        Inl e \<Rightarrow> Inl e
      | Inr (m, _, _) \<Rightarrow>
     (case ebind (noise_item noise i_fold) (linalg_inv minv) of
        Inl e \<Rightarrow> Inl e
      | Inr v \<Rightarrow>
          crossnobis_collect minv ds descriptor noise cv_descriptor cv_folds rest
            (ms @ [m], variances @ [v]))))"

fun crossnobis_pairs_inner ::
  "(matrix \<Rightarrow> error + matrix) \<Rightarrow> matrix list \<Rightarrow> matrix list \<Rightarrow> nat \<Rightarrow> nat list \<Rightarrow> vec list \<Rightarrow>
   error + vec list" where
  "crossnobis_pairs_inner minv ms variances i_fold [] rdms = Inr rdms"
| "crossnobis_pairs_inner minv ms variances i_fold (j_fold # js) rdms =
     (if i_fold \<noteq> j_fold then
        (case ebind (minv (mat_add (variances ! i_fold) (variances ! j_fold)))
                (calc_rdm_crossnobis_single (ms ! i_fold) (ms ! j_fold)) of
           Inl e \<Rightarrow> Inl e
         | Inr rdm \<Rightarrow> crossnobis_pairs_inner minv ms variances i_fold js (rdms @ [rdm]))
      else crossnobis_pairs_inner minv ms variances i_fold js rdms)"

fun crossnobis_pairs ::
  "(matrix \<Rightarrow> error + matrix) \<Rightarrow> matrix list \<Rightarrow> matrix list \<Rightarrow> nat \<Rightarrow> nat list \<Rightarrow> vec list \<Rightarrow>
   error + vec list" where
  "crossnobis_pairs minv ms variances n [] rdms = Inr rdms"
| "crossnobis_pairs minv ms variances n (i_fold # is) rdms =
     (case crossnobis_pairs_inner minv ms variances i_fold [Suc i_fold..<n] rdms of
        Inl e \<Rightarrow> Inl e
      | Inr rdms' \<Rightarrow> crossnobis_pairs minv ms variances n is rdms')"

text \<open>
  \<^verbatim>\<open>rdms = np.array(rdms); rdm = rdms.mean(axis=0)\<close>: the mean over the partial RDMs,
  entry by entry. No partial RDM gives the scalar NaN; partial RDMs of different lengths
  do not form an array (\<^verbatim>\<open>ValueError\<close>).
\<close>

definition mean_axis0 :: "vec list \<Rightarrow> error + dissim" where
  "mean_axis0 rdms =
     (case rdms of
        [] \<Rightarrow> Inr NotANumber
      | r # _ \<Rightarrow>
          if list_all (\<lambda>x. length x = length r) rdms
          then Inr (Condensed (col_mean (length r) rdms))
          else Inl ValueError)"

text \<open>
  \<^verbatim>\<open>
  def calc_rdm_crossnobis(dataset, descriptor, noise=None,
                          cv_descriptor=None):
      noise = _check_noise(noise, dataset.n_channel)
      if descriptor is None:
          raise ValueError(...)
      if cv_descriptor is None:
          ...
      dataset.sort_by(descriptor)
      cv_folds = np.unique(np.array(dataset.obs_descriptors[cv_descriptor]))
      rdms = []
      if (noise is None) or (isinstance(noise, np.ndarray) and noise.ndim == 2):
          ...
      else:  # a list of noises was provided
          ...
      rdms = np.array(rdms)
      rdm = rdms.mean(axis=0)
      rdm = RDMs(dissimilarities=np.array([rdm]),
                 dissimilarity_measure='crossnobis',
                 rdm_descriptors=deepcopy(dataset.descriptors))
      _, desc, _ = average_dataset_by(dataset, descriptor)
      rdm.pattern_descriptors[descriptor] = desc
      rdm.descriptors['noise'] = noise
      rdm.descriptors['cv_descriptor'] = cv_descriptor
      return rdm
  \<close>
  \<open>crossnobis_rdms\<close> is the list \<^verbatim>\<open>rdms\<close> after the branch on the noise,
  \<open>crossnobis_result\<close> the function from \<^verbatim>\<open>cv_folds = ...\<close> on.
\<close>

definition crossnobis_rdms ::
  "(matrix \<Rightarrow> error + matrix) \<Rightarrow> dataset \<Rightarrow> string \<Rightarrow> noise \<Rightarrow> string \<Rightarrow> label list \<Rightarrow>
   error + vec list" where
  "crossnobis_rdms minv ds descriptor noise cv_descriptor cv_folds =
     (case noise of
        NoNoise \<Rightarrow>
          sequence_e (map (crossnobis_fold ds descriptor None cv_descriptor cv_folds) cv_folds)
      | Arr2 a \<Rightarrow>
          sequence_e (map (crossnobis_fold ds descriptor (Some a) cv_descriptor cv_folds) cv_folds)
      | _ \<Rightarrow>
          ebind (crossnobis_collect minv ds descriptor noise cv_descriptor cv_folds
                   [0..<length cv_folds] ([], []))
            (\<lambda>(ms, variances).
               crossnobis_pairs minv ms variances (length cv_folds) [0..<length cv_folds] []))"

definition crossnobis_result ::
  "(matrix \<Rightarrow> error + matrix) \<Rightarrow> dataset \<Rightarrow> string \<Rightarrow> noise \<Rightarrow> string \<Rightarrow> error + rdms" where
  "crossnobis_result minv ds descriptor noise cv_descriptor =
     ebind (cv_folds_of ds cv_descriptor) (\<lambda>cv_folds.
     ebind (crossnobis_rdms minv ds descriptor noise cv_descriptor cv_folds) (\<lambda>rdms.
     ebind (mean_axis0 rdms) (\<lambda>rdm.
     ebind (average_dataset_by ds descriptor) (\<lambda>(_, desc, _).
       Inr (set_descriptor ''cv_descriptor'' (DString cv_descriptor)
              (set_descriptor ''noise'' (DNoise noise)
                 (set_pattern descriptor desc
                    (RDMs rdm ''crossnobis'' [] (descriptors ds)))))))))"

definition calc_rdm_crossnobis ::
  "(matrix \<Rightarrow> error + matrix) \<Rightarrow> dataset \<Rightarrow> string option \<Rightarrow> noise \<Rightarrow> string option \<Rightarrow>
   (error + rdms) \<times> dataset" where
  "calc_rdm_crossnobis minv ds descriptor noise cv_descriptor =
     (case check_noise noise (n_channel ds) of
        Inl e \<Rightarrow> (Inl e, ds)
      | Inr noise' \<Rightarrow>
          (case prepare_cv ds descriptor cv_descriptor of
             (Inl e, ds') \<Rightarrow> (Inl e, ds')
           | (Inr (d, c), ds') \<Rightarrow> (crossnobis_result minv ds' d noise' c, ds')))"

text \<open>
  \<^verbatim>\<open>
  def calc_rdm_poisson_cv(dataset, descriptor=None, prior_lambda=1,
                          prior_weight=0.1, cv_descriptor=None):
      if descriptor is None:
          raise ValueError(...)
      if cv_descriptor is None:
          ...
      dataset.sort_by(descriptor)
      cv_folds = np.unique(np.array(dataset.obs_descriptors[cv_descriptor]))
      for i_fold in range(len(cv_folds)):
          fold = cv_folds[i_fold]
          data_test = dataset.subset_obs(cv_descriptor, fold)
          data_train = dataset.subset_obs(cv_descriptor,
                                          np.setdiff1d(cv_folds, fold))
          measurements_train, _, _ = average_dataset_by(data_train, descriptor)
          measurements_test, _, _ = average_dataset_by(data_test, descriptor)
          measurements_train = (measurements_train
                                + prior_lambda * prior_weight) \
              / (1 + prior_weight)
          measurements_test = (measurements_test
                               + prior_lambda * prior_weight) \
              / (1 + prior_weight)
          diff = _calc_pairwise_differences(measurements_train)
          diff_log = _calc_pairwise_differences(np.log(measurements_test))
          rdm = np.einsum('ij,ij->i', diff, diff_log) \
              / measurements_train.shape[1]
      rdm = RDMs(dissimilarities=np.array([rdm]),
                 dissimilarity_measure='poisson_cv',
                 rdm_descriptors=deepcopy(dataset.descriptors))
      _, desc, _ = average_dataset_by(dataset, descriptor)
      rdm.pattern_descriptors[descriptor] = desc
      return rdm
  \<close>
  \<open>poisson_cv_fold\<close> is one round of the loop. The loop keeps one variable \<^verbatim>\<open>rdm\<close>,
  unbound before the first round and assigned anew in every round.
\<close>

definition poisson_cv_fold ::
  "dataset \<Rightarrow> string \<Rightarrow> real \<Rightarrow> real \<Rightarrow> string \<Rightarrow> label list \<Rightarrow> label \<Rightarrow> error + vec" where
  "poisson_cv_fold ds descriptor prior_lambda prior_weight cv_descriptor cv_folds fld =
     ebind (subset_obs ds cv_descriptor [fld]) (\<lambda>data_test.
     ebind (subset_obs ds cv_descriptor (filter (\<lambda>f. f \<noteq> fld) cv_folds)) (\<lambda>data_train.
     ebind (average_dataset_by data_train descriptor) (\<lambda>(train0, _, _).
     ebind (average_dataset_by data_test descriptor) (\<lambda>(test0, _, _).
       let measurements_train = shrink prior_lambda prior_weight train0;
           measurements_test = shrink prior_lambda prior_weight test0
       in ebind (calc_pairwise_differences measurements_train) (\<lambda>diff.
          ebind (calc_pairwise_differences (map (map ln) measurements_test)) (\<lambda>diff_log.
          ebind (einsum_ij_ij_i diff diff_log) (\<lambda>e.
            Inr (map (\<lambda>x. x / real (ncols measurements_train)) e))))))))"

fun poisson_cv_loop ::
  "dataset \<Rightarrow> string \<Rightarrow> real \<Rightarrow> real \<Rightarrow> string \<Rightarrow> label list \<Rightarrow> label list \<Rightarrow> vec option \<Rightarrow>
   error + vec option" where
  "poisson_cv_loop ds descriptor prior_lambda prior_weight cv_descriptor cv_folds [] rdm = Inr rdm"
| "poisson_cv_loop ds descriptor prior_lambda prior_weight cv_descriptor cv_folds (fld # rest) rdm =
     (case poisson_cv_fold ds descriptor prior_lambda prior_weight cv_descriptor cv_folds fld of
        Inl e \<Rightarrow> Inl e
      | Inr rdm' \<Rightarrow>
          poisson_cv_loop ds descriptor prior_lambda prior_weight cv_descriptor cv_folds rest
            (Some rdm'))"

definition poisson_cv_result ::
  "dataset \<Rightarrow> string \<Rightarrow> real \<Rightarrow> real \<Rightarrow> string \<Rightarrow> error + rdms" where
  "poisson_cv_result ds descriptor prior_lambda prior_weight cv_descriptor =
     ebind (cv_folds_of ds cv_descriptor) (\<lambda>cv_folds.
     ebind (poisson_cv_loop ds descriptor prior_lambda prior_weight cv_descriptor cv_folds
              cv_folds None) (\<lambda>rdm.
     ebind (case rdm of None \<Rightarrow> Inl UnboundLocalError | Some v \<Rightarrow> Inr v) (\<lambda>rdm.
     ebind (average_dataset_by ds descriptor) (\<lambda>(_, desc, _).
       Inr (set_pattern descriptor desc
              (RDMs (Condensed rdm) ''poisson_cv'' [] (descriptors ds)))))))"

definition calc_rdm_poisson_cv ::
  "dataset \<Rightarrow> string option \<Rightarrow> real \<Rightarrow> real \<Rightarrow> string option \<Rightarrow> (error + rdms) \<times> dataset" where
  "calc_rdm_poisson_cv ds descriptor prior_lambda prior_weight cv_descriptor =
     (case prepare_cv ds descriptor cv_descriptor of
        (Inl e, ds') \<Rightarrow> (Inl e, ds')
      | (Inr (d, c), ds') \<Rightarrow> (poisson_cv_result ds' d prior_lambda prior_weight c, ds'))"

section \<open>The orchestrators\<close>

text \<open>
  The first argument of \<^verbatim>\<open>calc_rdm\<close> and \<^verbatim>\<open>calc_rdm_movie\<close> is one dataset or an
  iterable of such arguments.
\<close>

datatype 'd coll = Single 'd | Coll "'d coll list"

text \<open>
  The noise passed on for element \<open>i\<close> of a collection:
  \<^verbatim>\<open>
              if noise is None: ...                    (no noise argument)
              elif isinstance(noise, np.ndarray) and noise.ndim == 2: ...  noise=noise
              elif isinstance(noise, Iterable): ...    noise=noise[i_dat]
  \<close>
  For any other noise no branch is taken and no call is made (\<open>None\<close>).
\<close>

definition noise_for :: "noise \<Rightarrow> nat \<Rightarrow> error + noise option" where
  "noise_for noise i_dat =
     (case noise of
        NoNoise \<Rightarrow> Inr (Some NoNoise)
      | Arr2 a \<Rightarrow> Inr (Some (Arr2 a))
      | Other \<Rightarrow> Inr None
      | _ \<Rightarrow> ebind (noise_item noise i_dat) (\<lambda>nz. Inr (Some nz)))"

text \<open>
  \<^verbatim>\<open>
  def calc_rdm(dataset, method='euclidean', descriptor=None, noise=None,
               cv_descriptor=None, prior_lambda=1, prior_weight=0.1):
      if isinstance(dataset, Iterable):
          rdms = []
          for i_dat in range(len(dataset)):
              if noise is None:
                  rdms.append(calc_rdm(
                      dataset[i_dat], method=method,
                      descriptor=descriptor,
                      cv_descriptor=cv_descriptor,
                      prior_lambda=prior_lambda, prior_weight=prior_weight))
              elif isinstance(noise, np.ndarray) and noise.ndim == 2:
                  rdms.append(calc_rdm(
                      dataset[i_dat], method=method,
                      descriptor=descriptor,
                      noise=noise,
                      cv_descriptor=cv_descriptor,
                      prior_lambda=prior_lambda, prior_weight=prior_weight))
              elif isinstance(noise, Iterable):
                  rdms.append(calc_rdm(
                      dataset[i_dat], method=method,
                      descriptor=descriptor,
                      noise=noise[i_dat],
                      cv_descriptor=cv_descriptor,
                      prior_lambda=prior_lambda, prior_weight=prior_weight))
          rdm = concat(rdms)
      else:
          if method == 'euclidean':
              rdm = calc_rdm_euclid(dataset, descriptor)
          elif method == 'correlation':
              rdm = calc_rdm_correlation(dataset, descriptor)
          elif method == 'correlation_cv':
              rdm = calc_rdm_correlation_cv(dataset, descriptor)
          elif method == 'mahalanobis':
              rdm = calc_rdm_mahalanobis(dataset, descriptor, noise)
          elif method == 'crossnobis':
              rdm = calc_rdm_crossnobis(dataset, descriptor, noise,
                                        cv_descriptor)
          elif method == 'crosseuclid':
              rdm = calc_rdm_crossnobis(dataset, descriptor, None,
                                        cv_descriptor)
          elif method == 'poisson':
              rdm = calc_rdm_poisson(dataset, descriptor,
                                     prior_lambda=prior_lambda,
                                     prior_weight=prior_weight)
          elif method == 'poisson_cv':
              rdm = calc_rdm_poisson_cv(dataset, descriptor,
                                        cv_descriptor=cv_descriptor,
                                        prior_lambda=prior_lambda,
                                        prior_weight=prior_weight)
          else:
              raise(NotImplementedError)
      return rdm
  \<close>
  The datasets are objects the estimators may change, so the model returns the argument
  as the call leaves it. \<open>calc_rdm_each\<close> is the loop over the elements from index
  \<open>i_dat\<close> on.
\<close>

definition calc_rdm_single ::
  "(matrix \<Rightarrow> error + matrix) \<Rightarrow> dataset \<Rightarrow> string \<Rightarrow> string option \<Rightarrow> noise \<Rightarrow> string option \<Rightarrow>
   real \<Rightarrow> real \<Rightarrow> (error + rdms) \<times> dataset" where
  "calc_rdm_single minv ds method descriptor noise cv_descriptor prior_lambda prior_weight =
     (if method = ''euclidean'' then (calc_rdm_euclid ds descriptor, ds)
      else if method = ''correlation'' then (calc_rdm_correlation ds descriptor, ds)
      else if method = ''correlation_cv'' then (calc_rdm_correlation_cv ds descriptor, ds)
      else if method = ''mahalanobis'' then (calc_rdm_mahalanobis ds descriptor noise, ds)
      else if method = ''crossnobis'' then calc_rdm_crossnobis minv ds descriptor noise cv_descriptor
      else if method = ''crosseuclid'' then calc_rdm_crossnobis minv ds descriptor NoNoise cv_descriptor
      else if method = ''poisson'' then (calc_rdm_poisson ds descriptor prior_lambda prior_weight, ds)
      else if method = ''poisson_cv''
        then calc_rdm_poisson_cv ds descriptor prior_lambda prior_weight cv_descriptor
      else (Inl NotImplementedError, ds))"

fun calc_rdm ::
  "(matrix \<Rightarrow> error + matrix) \<Rightarrow> dataset coll \<Rightarrow> string \<Rightarrow> string option \<Rightarrow> noise \<Rightarrow> string option \<Rightarrow>
   real \<Rightarrow> real \<Rightarrow> (error + rdms) \<times> dataset coll"
and calc_rdm_each ::
  "(matrix \<Rightarrow> error + matrix) \<Rightarrow> dataset coll list \<Rightarrow> nat \<Rightarrow> string \<Rightarrow> string option \<Rightarrow> noise \<Rightarrow>
   string option \<Rightarrow> real \<Rightarrow> real \<Rightarrow> (error + rdms list) \<times> dataset coll list" where
  "calc_rdm minv (Coll dsets) method descriptor noise cv_descriptor prior_lambda prior_weight =
     (case calc_rdm_each minv dsets 0 method descriptor noise cv_descriptor prior_lambda prior_weight of
        (Inl e, dsets') \<Rightarrow> (Inl e, Coll dsets')
      | (Inr rdms, dsets') \<Rightarrow> (concat_rdms rdms, Coll dsets'))"
| "calc_rdm minv (Single ds) method descriptor noise cv_descriptor prior_lambda prior_weight =
     (case calc_rdm_single minv ds method descriptor noise cv_descriptor prior_lambda prior_weight of
        (r, ds') \<Rightarrow> (r, Single ds'))"
| "calc_rdm_each minv [] i_dat method descriptor noise cv_descriptor prior_lambda prior_weight =
     (Inr [], [])"
| "calc_rdm_each minv (d # rest) i_dat method descriptor noise cv_descriptor prior_lambda prior_weight =
     (case noise_for noise i_dat of
        Inl e \<Rightarrow> (Inl e, d # rest)
      | Inr None \<Rightarrow>
          (case calc_rdm_each minv rest (Suc i_dat) method descriptor noise cv_descriptor
                  prior_lambda prior_weight of
             (r, rest') \<Rightarrow> (r, d # rest'))
      | Inr (Some nz) \<Rightarrow>
          (case calc_rdm minv d method descriptor nz cv_descriptor prior_lambda prior_weight of
             (Inl e, d') \<Rightarrow> (Inl e, d' # rest)
           | (Inr rdm, d') \<Rightarrow>
               (case calc_rdm_each minv rest (Suc i_dat) method descriptor noise cv_descriptor
                       prior_lambda prior_weight of
                  (Inl e, rest') \<Rightarrow> (Inl e, d' # rest')
                | (Inr rdms, rest') \<Rightarrow> (Inr (rdm # rdms), d' # rest'))))"

text \<open>
  The temporal dataset class lives in \<^verbatim>\<open>pyrsa.data\<close>, outside the module; the four of its
  operations that \<^verbatim>\<open>calc_rdm_movie\<close> calls are parameters of the model.
\<close>

record 't temporal_ops =
  bin_time :: "'t \<Rightarrow> string \<Rightarrow> real list list \<Rightarrow> error + 't"
  split_time :: "'t \<Rightarrow> string \<Rightarrow> error + 't list"
  time_descriptors :: "'t \<Rightarrow> string \<Rightarrow> error + real list"
  convert_to_dataset :: "'t \<Rightarrow> string \<Rightarrow> error + dataset"

text \<open>
  \<^verbatim>\<open>
  def calc_rdm_movie(dataset, method='euclidean', descriptor=None, noise=None,
               cv_descriptor=None, prior_lambda=1, prior_weight=0.1,
               time_descriptor='time', bins=None):
      if isinstance(dataset, Iterable):
          rdms = []
          for i_dat, _ in enumerate(dataset):
              if noise is None:
                  rdms.append(calc_rdm_movie(
                      dataset[i_dat], method=method,
                      descriptor=descriptor))
              elif isinstance(noise, np.ndarray) and noise.ndim == 2:
                  rdms.append(calc_rdm_movie(
                      dataset[i_dat], method=method,
                      descriptor=descriptor,
                      noise=noise))
              elif isinstance(noise, Iterable):
                  rdms.append(calc_rdm_movie(
                      dataset[i_dat], method=method,
                      descriptor=descriptor,
                      noise=noise[i_dat]))
          rdm = concat(rdms)
      else:
          if bins is not None:
              binned_data = dataset.bin_time(time_descriptor, bins)
              splited_data = binned_data.split_time(time_descriptor)
              time = binned_data.time_descriptors[time_descriptor]
          else:
              splited_data = dataset.split_time(time_descriptor)
              time = dataset.time_descriptors[time_descriptor]
          rdms = []
          for dat in splited_data:
              dat_single = dat.convert_to_dataset(time_descriptor)
              rdms.append(calc_rdm(dat_single, method=method,
                                   descriptor=descriptor, noise=noise,
                                   cv_descriptor=cv_descriptor,
                                   prior_lambda=prior_lambda,
                                   prior_weight=prior_weight))
          rdm = concat(rdms)
          rdm.rdm_descriptors[time_descriptor] = time
      return rdm
  \<close>
  The recursive calls for the elements of a collection pass the method, the descriptor
  and the noise; every other parameter takes its default there.
\<close>

definition movie_single ::
  "'t temporal_ops \<Rightarrow> (matrix \<Rightarrow> error + matrix) \<Rightarrow> 't \<Rightarrow> string \<Rightarrow> string option \<Rightarrow> noise \<Rightarrow>
   string option \<Rightarrow> real \<Rightarrow> real \<Rightarrow> string \<Rightarrow> real list list option \<Rightarrow> error + rdms" where
  "movie_single ops minv dataset method descriptor noise cv_descriptor prior_lambda prior_weight
     time_descriptor bins =
     ebind (case bins of
              Some b \<Rightarrow>
                ebind (bin_time ops dataset time_descriptor b) (\<lambda>binned_data.
                ebind (split_time ops binned_data time_descriptor) (\<lambda>splited_data.
                ebind (time_descriptors ops binned_data time_descriptor) (\<lambda>time.
                  Inr (splited_data, time))))
            | None \<Rightarrow>
                ebind (split_time ops dataset time_descriptor) (\<lambda>splited_data.
                ebind (time_descriptors ops dataset time_descriptor) (\<lambda>time.
                  Inr (splited_data, time)))) (\<lambda>(splited_data, time).
     ebind (sequence_e
              (map (\<lambda>dat.
                      ebind (convert_to_dataset ops dat time_descriptor) (\<lambda>dat_single.
                        fst (calc_rdm minv (Single dat_single) method descriptor noise
                               cv_descriptor prior_lambda prior_weight)))
                 splited_data)) (\<lambda>rdms.
     ebind (concat_rdms rdms) (\<lambda>rdm.
       Inr (rdm\<lparr>rdm_descriptors :=
                   AList.update time_descriptor (DTimes time) (rdm_descriptors rdm)\<rparr>))))"

fun calc_rdm_movie ::
  "'t temporal_ops \<Rightarrow> (matrix \<Rightarrow> error + matrix) \<Rightarrow> 't coll \<Rightarrow> string \<Rightarrow> string option \<Rightarrow> noise \<Rightarrow>
   string option \<Rightarrow> real \<Rightarrow> real \<Rightarrow> string \<Rightarrow> real list list option \<Rightarrow> error + rdms"
and calc_rdm_movie_each ::
  "'t temporal_ops \<Rightarrow> (matrix \<Rightarrow> error + matrix) \<Rightarrow> 't coll list \<Rightarrow> nat \<Rightarrow> string \<Rightarrow> string option \<Rightarrow>
   noise \<Rightarrow> error + rdms list" where
  "calc_rdm_movie ops minv (Coll dsets) method descriptor noise cv_descriptor prior_lambda prior_weight
     time_descriptor bins =
     ebind (calc_rdm_movie_each ops minv dsets 0 method descriptor noise) concat_rdms"
| "calc_rdm_movie ops minv (Single dataset) method descriptor noise cv_descriptor prior_lambda
     prior_weight time_descriptor bins =
     movie_single ops minv dataset method descriptor noise cv_descriptor prior_lambda prior_weight
       time_descriptor bins"
| "calc_rdm_movie_each ops minv [] i_dat method descriptor noise = Inr []"
| "calc_rdm_movie_each ops minv (d # rest) i_dat method descriptor noise =
     (case noise_for noise i_dat of
        Inl e \<Rightarrow> Inl e
      | Inr None \<Rightarrow> calc_rdm_movie_each ops minv rest (Suc i_dat) method descriptor noise
      | Inr (Some nz) \<Rightarrow>
          (case calc_rdm_movie ops minv d method descriptor nz None 1 (1 / 10) ''time'' None of
             Inl e \<Rightarrow> Inl e
           | Inr rdm \<Rightarrow>
               (case calc_rdm_movie_each ops minv rest (Suc i_dat) method descriptor noise of
                  Inl e \<Rightarrow> Inl e
                | Inr rdms \<Rightarrow> Inr (rdm # rdms))))"

section \<open>Reference notions and example inputs\<close>


text \<open>Two datasets of one channel with the conditions A, A, A, B, B, B and A, A, B.\<close>

definition ds_AAABBB :: dataset where
  "ds_AAABBB = \<lparr>measurements = [[1], [2], [3], [4], [5], [6]], n_channel = 1, descriptors = [],
      obs_descriptors = [(''conds'', [Str ''A'', Str ''A'', Str ''A'', Str ''B'', Str ''B'', Str ''B''])]\<rparr>"



text \<open>The dataset of the four conditions \<open>(0, 0), (1, 0), (0, 1), (1, 1)\<close> on two channels.\<close>

definition ds_square :: dataset where
  "ds_square = \<lparr>measurements = [[0, 0], [1, 0], [0, 1], [1, 1]], n_channel = 2, descriptors = [],
      obs_descriptors = [(''conds'', [Num 0, Num 1, Num 2, Num 3])]\<rparr>"

text \<open>
  A dataset whose condition descriptor is named \<^verbatim>\<open>pattern\<close>, and a dataset without
  observations.
\<close>

definition ds_pattern :: dataset where
  "ds_pattern = \<lparr>measurements = [[1, 2], [2, 1], [3, 5], [5, 3]], n_channel = 2, descriptors = [],
      obs_descriptors = [(''pattern'', [Num 0, Num 0, Num 1, Num 1])]\<rparr>"

definition ds_empty :: dataset where
  "ds_empty = \<lparr>measurements = [], n_channel = 2, descriptors = [], obs_descriptors = []\<rparr>"

text \<open>
  Counts of one channel for the conditions A and B in the runs 0 and 1, and the same
  dataset sorted by condition.
\<close>

definition ds_counts :: dataset where
  "ds_counts = \<lparr>measurements = [[3], [1], [2], [1]], n_channel = 1, descriptors = [],
      obs_descriptors = [(''conds'', [Str ''A'', Str ''B'', Str ''A'', Str ''B'']),
                         (''run'', [Num 0, Num 0, Num 1, Num 1])]\<rparr>"

definition ds_counts_sorted :: dataset where
  "ds_counts_sorted = \<lparr>measurements = [[3], [2], [1], [1]], n_channel = 1, descriptors = [],
      obs_descriptors = [(''conds'', [Str ''A'', Str ''A'', Str ''B'', Str ''B'']),
                         (''run'', [Num 0, Num 1, Num 0, Num 1])]\<rparr>"

text \<open>
  A stand-in for the operations of a temporal dataset with one time sample: the dataset is
  the pair of the name of its time descriptor and its one sample; asking for another time
  descriptor is a \<^verbatim>\<open>KeyError\<close>.
\<close>

definition one_sample_ops :: "(string \<times> dataset) temporal_ops" where
  "one_sample_ops =
     \<lparr>bin_time = (\<lambda>t td b. if td = fst t then Inr t else Inl KeyError),
      split_time = (\<lambda>t td. if td = fst t then Inr [t] else Inl KeyError),
      time_descriptors = (\<lambda>t td. if td = fst t then Inr [0] else Inl KeyError),
      convert_to_dataset = (\<lambda>t td. Inr (snd t))\<rparr>"

text \<open>
  The unordered pairs of distinct folds, each once with the smaller index first, and the
  averaged patterns of one fold.
\<close>

definition fold_pairs :: "nat \<Rightarrow> (nat \<times> nat) list" where
  "fold_pairs n = filter (\<lambda>(i, j). i < j) (List.product [0..<n] [0..<n])"

definition fold_average :: "dataset \<Rightarrow> string \<Rightarrow> string \<Rightarrow> label \<Rightarrow> error + matrix" where
  "fold_average ds descriptor cv_descriptor fld =
     ebind (subset_obs ds cv_descriptor [fld]) (\<lambda>data.
     ebind (average_dataset_by data descriptor) (\<lambda>(m, _, _). Inr m))"




text \<open>
  The two changes that crossnobis and the cross-validated Poisson estimator make to the
  dataset of the caller. \<open>cv_side_effect ds descriptor cv_descriptor ds'\<close> says that the
  dataset \<open>ds'\<close> is the dataset \<open>ds\<close>, possibly with the default fold labels stored under
  \<^verbatim>\<open>cv_desc\<close> (only when no fold descriptor was given), possibly sorted by the pattern
  descriptor after that.
\<close>

definition with_default_folds :: "dataset \<Rightarrow> label list \<Rightarrow> dataset" where
  "with_default_folds ds cv_desc =
     ds\<lparr>obs_descriptors := AList.update ''cv_desc'' cv_desc (obs_descriptors ds)\<rparr>"

definition cv_side_effect :: "dataset \<Rightarrow> string option \<Rightarrow> string option \<Rightarrow> dataset \<Rightarrow> bool" where
  "cv_side_effect ds descriptor cv_descriptor ds' =
     (ds' = ds \<or>
      (\<exists>d ds1. descriptor = Some d
         \<and> (ds1 = ds \<and> cv_descriptor \<noteq> None
              \<or> cv_descriptor = None
                \<and> (\<exists>cv_desc. gen_default_cv_descriptor ds d = Inr cv_desc
                       \<and> ds1 = with_default_folds ds cv_desc))
         \<and> (ds' = ds1 \<or> sort_by ds1 d = Inr ds')))"

text \<open>
  The shape of the array that an estimator hands to the container for one RDM, and the two
  conditions on a result with \<open>C\<close> pattern labels: its one array is a condensed vector of
  length \<open>C (C - 1) / 2\<close>, or it is a full \<open>C\<close> by \<open>C\<close> matrix.
\<close>

definition dissim_shape :: "dissim \<Rightarrow> nat list" where
  "dissim_shape x = (case x of Condensed v \<Rightarrow> [length v] | Square m \<Rightarrow> [length m, ncols m] | NotANumber \<Rightarrow> [])"

definition condensed_ok :: "rdms \<Rightarrow> bool" where
  "condensed_ok r =
     (case (dissimilarities r, pattern_descriptors r) of
        ([Condensed v], [(d, desc)]) \<Rightarrow> length v = length desc * (length desc - 1) div 2
      | _ \<Rightarrow> False)"

definition square_ok :: "rdms \<Rightarrow> bool" where
  "square_ok r =
     (case (dissimilarities r, pattern_descriptors r) of
        ([Square m], [(d, desc)]) \<Rightarrow>
           length m = length desc \<and> list_all (\<lambda>row. length row = length desc) m
      | _ \<Rightarrow> False)"

text \<open>
  The folds are complete when there is at least one observation, the two descriptors
  have one label each for every observation, and every fold, and the rest of the
  observations without that fold, contains every condition.
\<close>

definition folds_complete :: "label list \<Rightarrow> label list \<Rightarrow> bool" where
  "folds_complete conds folds =
     (folds \<noteq> [] \<and> length conds = length folds \<and>
      list_all (\<lambda>f. set (select (map (\<lambda>l. l = f) folds) conds) = set conds
                   \<and> set (select (map (\<lambda>l. l \<noteq> f) folds) conds) = set conds)
        (np_unique folds))"

definition cv_complete :: "dataset \<Rightarrow> string \<Rightarrow> string \<Rightarrow> bool" where
  "cv_complete ds d c =
     (case (map_of (obs_descriptors ds) d, map_of (obs_descriptors ds) c) of
        (Some conds, Some folds) \<Rightarrow> folds_complete conds folds
      | _ \<Rightarrow> False)"

text \<open>
  A condensed vector given entry by entry: the entry for the \<open>k\<close>-th canonical pair
  \<open>(i, j)\<close> of \<open>c\<close> patterns is \<open>g i j\<close>.
\<close>

definition pairwise_entries :: "(nat \<Rightarrow> nat \<Rightarrow> real) \<Rightarrow> nat \<Rightarrow> vec" where
  "pairwise_entries g c = map (\<lambda>(i, j). g i j) (canonical_pairs c)"

section \<open>Properties of the pairwise loops\<close>

lemma pair_loop_inner_fills:
  assumes "\<And>j. j \<in> set js \<Longrightarrow> body i j = Inr (f i j)"
    and "k + length js \<le> length out"
  shows "pair_loop_inner body i js (out, k) =
           Inr (take k out @ map (f i) js @ drop (k + length js) out, k + length js)"
  using assms
proof (induction js arbitrary: out k)
  case Nil
  then show ?case by simp
next
  case (Cons j js)
  have k: "k < length out" using Cons.prems(2) by simp
  have b: "body i j = Inr (f i j)" using Cons.prems(1) by simp
  have step: "pair_loop_inner body i js (out[k := f i j], Suc k) =
      Inr (take (Suc k) (out[k := f i j]) @ map (f i) js
             @ drop (Suc k + length js) (out[k := f i j]), Suc k + length js)"
    using Cons.prems by (intro Cons.IH) auto
  have t: "take (Suc k) (out[k := f i j]) = take k out @ [f i j]"
    using k by (simp add: take_Suc_conv_app_nth)
  have d: "drop (Suc k + length js) (out[k := f i j]) = drop (Suc k + length js) out"
    by simp
  show ?case using k b step t d by simp
qed

lemma pair_loop_fills:
  assumes "\<And>i j. i \<in> set is \<Longrightarrow> i < j \<Longrightarrow> j < n \<Longrightarrow> body i j = Inr (f i j)"
    and "k + sum_list (map (\<lambda>i. n - Suc i) is) \<le> length out"
  shows "pair_loop body n is (out, k) =
           Inr (take k out @ concat (map (\<lambda>i. map (f i) [Suc i..<n]) is)
                  @ drop (k + sum_list (map (\<lambda>i. n - Suc i) is)) out,
                k + sum_list (map (\<lambda>i. n - Suc i) is))"
  using assms
proof (induction "is" arbitrary: out k)
  case Nil
  then show ?case by simp
next
  case (Cons i "is")
  let ?w = "n - Suc i"
  let ?rest = "sum_list (map (\<lambda>i. n - Suc i) is)"
  let ?out = "take k out @ map (f i) [Suc i..<n] @ drop (k + ?w) out"
  have inner: "pair_loop_inner body i [Suc i..<n] (out, k) = Inr (?out, k + ?w)"
    using Cons.prems pair_loop_inner_fills [of "[Suc i..<n]" body i f k out] by simp
  have len: "length ?out = length out"
    using Cons.prems(2) by simp
  have rest: "pair_loop body n is (?out, k + ?w) =
      Inr (take (k + ?w) ?out @ concat (map (\<lambda>i. map (f i) [Suc i..<n]) is)
             @ drop (k + ?w + ?rest) ?out, k + ?w + ?rest)"
    using Cons.prems len by (intro Cons.IH) auto
  have t: "take (k + ?w) ?out = take k out @ map (f i) [Suc i..<n]"
    using Cons.prems(2) by simp
  have d: "drop (k + ?w + ?rest) ?out = drop (k + ?w + ?rest) out"
    using Cons.prems(2) by (simp add: ac_simps)
  show ?case using inner rest t d by (simp add: add.assoc)
qed

lemma sum_pairs_upto:
  "m \<le> n \<Longrightarrow> 2 * sum_list (map (\<lambda>i. n - Suc i) [0..<m]) + m * (m + 1) = 2 * m * n"
proof (induction m)
  case 0
  then show ?case by simp
next
  case (Suc m)
  then have "2 * sum_list (map (\<lambda>i. n - Suc i) [0..<m]) + m * (m + 1) = 2 * m * n"
    and "Suc m \<le> n" by simp_all
  then show ?case by (simp add: algebra_simps)
qed

lemma sum_pairs: "sum_list (map (\<lambda>i. n - Suc i) [0..<n]) = n * (n - 1) div 2"
proof -
  have "2 * sum_list (map (\<lambda>i. n - Suc i) [0..<n]) + n * (n + 1) = 2 * n * n"
    by (rule sum_pairs_upto) simp
  then have "2 * sum_list (map (\<lambda>i. n - Suc i) [0..<n]) = n * (n - 1)"
    by (cases n) (simp_all add: algebra_simps)
  then show ?thesis by simp
qed

lemma pairs_outer_last:
  "concat (map (\<lambda>i. map (f i) [Suc i..<n]) [0..<n]) = concat (map (\<lambda>i. map (f i) [Suc i..<n]) [0..<n - 1])"
  by (cases n) simp_all

lemma map_canonical_pairs:
  "map (\<lambda>(i, j). f i j) (canonical_pairs n) = concat (map (\<lambda>i. map (f i) [Suc i..<n]) [0..<n])"
  unfolding canonical_pairs_def pairs_outer_last [of f n]
  by (simp add: map_concat comp_def)

lemma length_canonical_pairs: "length (canonical_pairs n) = n * (n - 1) div 2"
proof -
  have "length (canonical_pairs n) = length (map (\<lambda>(i, j). ()) (canonical_pairs n))" by simp
  also have "\<dots> = sum_list (map (\<lambda>i. n - Suc i) [0..<n])"
    unfolding map_canonical_pairs by (simp add: length_concat comp_def)
  finally show ?thesis by (simp add: sum_pairs)
qed

lemma pair_loop_total:
  assumes "\<And>i j. i < j \<Longrightarrow> j < n \<Longrightarrow> body i j = Inr (f i j)"
    and "length out = n * (n - 1) div 2"
  shows "pair_loop body n [0..<n] (out, 0) = Inr (map (\<lambda>(i, j). f i j) (canonical_pairs n), n * (n - 1) div 2)"
  using pair_loop_fills [of "[0..<n]" n body f 0 out] assms
  by (simp add: sum_pairs map_canonical_pairs)

lemma sum_pairs_less: "sum_list (map (\<lambda>i. n - Suc i) [0..<n - 1]) = n * (n - 1) div 2"
  using sum_pairs [of n] by (cases n) simp_all

lemma pair_loop_total':
  assumes "\<And>i j. i < j \<Longrightarrow> j < n \<Longrightarrow> body i j = Inr (f i j)"
    and "length out = n * (n - 1) div 2"
  shows "pair_loop body n [0..<n - 1] (out, 0) = Inr (map (\<lambda>(i, j). f i j) (canonical_pairs n), n * (n - 1) div 2)"
proof -
  let ?s = "sum_list (map (\<lambda>i. n - Suc i) [0..<n - 1])"
  have s: "?s = n * (n - 1) div 2" by (rule sum_pairs_less)
  have "pair_loop body n [0..<n - 1] (out, 0) =
      Inr (take 0 out @ concat (map (\<lambda>i. map (f i) [Suc i..<n]) [0..<n - 1]) @ drop (0 + ?s) out, 0 + ?s)"
    using assms s by (intro pair_loop_fills) auto
  also have "concat (map (\<lambda>i. map (f i) [Suc i..<n]) [0..<n - 1]) = map (\<lambda>(i, j). f i j) (canonical_pairs n)"
    by (simp add: canonical_pairs_def map_concat comp_def)
  finally show ?thesis using assms(2) s by simp
qed

lemma calc_pairwise_differences_eq:
  "calc_pairwise_differences ms =
     Inr (map (\<lambda>(i, j). vsub (ms ! i) (ms ! j)) (canonical_pairs (length ms)))"
  unfolding calc_pairwise_differences_def Let_def
  by (subst pair_loop_total [where f = "\<lambda>i j. vsub (ms ! i) (ms ! j)"]) simp_all

section \<open>The pairwise difference engine\<close>

text \<open>
  C9. For every input matrix of \<open>C\<close> rows the pairwise difference engine returns, without
  raising, the matrix whose rows are row \<open>i\<close> minus row \<open>j\<close> of the input for the pairs
  \<open>(i, j)\<close> in canonical order; it has \<open>C (C - 1) / 2\<close> rows. For no row and for one row
  the output is empty, and for the three rows \<open>a, b, c\<close> it is \<open>a - b, a - c, b - c\<close>.
\<close>

theorem pairwise_differences_canonical:
  "calc_pairwise_differences ms =
     Inr (map (\<lambda>(i, j). vsub (ms ! i) (ms ! j)) (canonical_pairs (length ms)))
   \<and> length (canonical_pairs (length ms)) = length ms * (length ms - 1) div 2
   \<and> calc_pairwise_differences [] = Inr []
   \<and> calc_pairwise_differences [a] = Inr []
   \<and> calc_pairwise_differences [a, b, c] = Inr [vsub a b, vsub a c, vsub b c]"
proof -
  have "calc_pairwise_differences [a, b, c] = Inr [vsub a b, vsub a c, vsub b c]"
    and "calc_pairwise_differences [a] = Inr []"
    and "calc_pairwise_differences [] = Inr []"
    by (simp_all add: calc_pairwise_differences_eq canonical_pairs_def)
  then show ?thesis
    using calc_pairwise_differences_eq [of ms] length_canonical_pairs [of "length ms"]
    by blast
qed

section \<open>The fold partitioner\<close>













section \<open>The noise validator\<close>

lemma sequence_e_Inr: "sequence_e rs = Inr xs \<Longrightarrow> rs = map Inr xs"
proof (induction rs arbitrary: xs)
  case Nil
  then show ?case by simp
next
  case (Cons r rs)
  then show ?case by (cases r) (auto split: sum.splits)
qed

lemma sequence_e_map_Inr: "sequence_e (map Inr xs) = Inr xs"
  by (induction xs) simp_all

lemma check_noise_keys_same:
  assumes "\<And>k v. map_of checked k = Some (Inr v) \<Longrightarrow> map_of items k = Some v"
    and "check_noise_keys is checked items = Inr items'"
  shows "items' = items"
  using assms(2)
proof (induction "is")
  case Nil
  then show ?case by simp
next
  case (Cons i "is")
  then show ?case
    using assms(1) by (auto split: option.splits sum.splits simp: update_triv)
qed

lemma check_noise_same: "check_noise nz n = Inr nz' \<Longrightarrow> nz' = nz"
proof (induction nz arbitrary: nz')
  case NoNoise
  then show ?case by simp
next
  case (Arr2 a)
  then show ?case by (simp split: if_splits)
next
  case (NoiseList ns)
  from NoiseList.prems obtain ns' where s: "sequence_e (map (\<lambda>x. check_noise x n) ns) = Inr ns'"
    and nz': "nz' = NoiseList ns'"
    by (auto split: sum.splits)
  have m: "map (\<lambda>x. check_noise x n) ns = map Inr ns'"
    using s by (rule sequence_e_Inr)
  then have len: "length ns = length ns'" by (metis length_map)
  have "ns' ! i = ns ! i" if "i < length ns" for i
  proof -
    have "check_noise (ns ! i) n = Inr (ns' ! i)"
      using m that len by (metis nth_map)
    then show ?thesis using NoiseList.IH that by (metis nth_mem)
  qed
  then have "ns' = ns" using len by (intro nth_equalityI) auto
  then show ?case using nz' by simp
next
  case (NoiseDict items)
  from NoiseDict.prems obtain items' where
    s: "check_noise_keys [0..<length items] (map (\<lambda>(k, v). (k, check_noise v n)) items) items = Inr items'"
    and nz': "nz' = NoiseDict items'"
    by (auto split: sum.splits)
  have "map_of items k = Some v"
    if "map_of (map (\<lambda>(k, v). (k, check_noise v n)) items) k = Some (Inr v)" for k v
  proof -
    from that obtain v0 where v0: "map_of items k = Some v0" "check_noise v0 n = Inr v"
      by (auto simp: map_of_map)
    then have "(k, v0) \<in> set items" by (simp add: map_of_SomeD)
    then have "v = v0" using NoiseDict.IH [of "(k, v0)" v0 v] v0(2) by simp
    then show ?thesis using v0 by simp
  qed
  then have "items' = items" using s by (rule check_noise_keys_same)
  then show ?case using nz' by simp
next
  case Other
  then show ?case by simp
qed

text \<open>
  C7. The claim that a keyed mapping of noise specifications is validated leaf by leaf
  fails on the code: a dictionary is iterable, so it is indexed by \<open>0, 1, ...\<close> like a list
  and the branch for dictionaries is never taken. A dictionary with the one key
  \<^verbatim>\<open>'a'\<close> raises \<^verbatim>\<open>KeyError\<close>, whether its matrix conforms or not; the same matrices in
  a list, or under the key \<open>0\<close>, are validated.
\<close>

theorem check_noise_mapping_key_error:
  "check_noise (NoiseDict [(Str ''a'', Arr2 [[1, 0], [0, 1]])]) 2 = Inl KeyError
   \<and> check_noise (NoiseDict [(Str ''a'', Arr2 [[1, 0, 0], [0, 1, 0]])]) 2 = Inl KeyError
   \<and> check_noise (NoiseList [Arr2 [[1, 0], [0, 1]]]) 2 = Inr (NoiseList [Arr2 [[1, 0], [0, 1]]])
   \<and> check_noise (NoiseList [Arr2 [[1, 0, 0], [0, 1, 0]]]) 2 = Inl AssertionError
   \<and> check_noise (NoiseDict [(Num 0, Arr2 [[1, 0], [0, 1]])]) 2 =
        Inr (NoiseDict [(Num 0, Arr2 [[1, 0], [0, 1]])])"
  by (simp add: shape_def ncols_def)

section \<open>The Euclidean estimator\<close>

lemma euclid_square: "map_sum id dissimilarities (calc_rdm_euclid ds_square (Some ''conds'')) = Inr [Condensed [1/2, 1/2, 1, 1, 1/2, 1/2]]"
  by code_simp




lemma einsum_same: "einsum_ij_ij_i A A = Inr (map (\<lambda>a. dot a a) A)"
  by (simp add: einsum_ij_ij_i_def zip_same_conv_map)

lemma canonical_pairs_bounds: "(i, j) \<in> set (canonical_pairs n) \<Longrightarrow> i < j \<and> j < n"
  by (auto simp: canonical_pairs_def)






section \<open>General facts\<close>

lemma ebind_eq_Inr: "ebind m f = Inr y \<longleftrightarrow> (\<exists>x. m = Inr x \<and> f x = Inr y)"
  by (cases m) simp_all

lemma pair_loop_pure:
  "pair_loop (\<lambda>i j. Inr (f i j)) n [0..<n - 1] (replicate (n * (n - 1) div 2) z, 0) =
     Inr (map (\<lambda>(i, j). f i j) (canonical_pairs n), n * (n - 1) div 2)"
  by (rule pair_loop_total') simp_all

lemma pair_loop_pure_choose:
  "pair_loop (\<lambda>i j. Inr (f i j)) n [0..<n - 1] (replicate (n choose 2) z, 0) =
     Inr (map (\<lambda>(i, j). f i j) (canonical_pairs n), n choose 2)"
  using pair_loop_pure [of f n z] by (simp add: choose_two)

lemma sequence_e_all_Inr: "(\<And>x. x \<in> set xs \<Longrightarrow> f x = Inr (g x)) \<Longrightarrow> sequence_e (map f xs) = Inr (map g xs)"
  by (induction xs) simp_all

lemmas eval_defs = subset_obs_def average_dataset_by_def np_unique_def select_def col_mean_def
  shrink_def calc_pairwise_differences_eq canonical_pairs_def einsum_ij_ij_i_def vsub_def dot_def
  ncols_def upt_conv_Cons

section \<open>The test of the grouping descriptor\<close>

lemma prepare_cv_None: "prepare_cv ds None cv = (Inl ValueError, ds)"
  by (simp add: prepare_cv_def)

lemma poisson_cv_None: "calc_rdm_poisson_cv ds None pl pw cv = (Inl ValueError, ds)"
  by (simp add: calc_rdm_poisson_cv_def prepare_cv_None)

lemma crossnobis_None:
  "calc_rdm_crossnobis minv ds None noise cv =
     (case check_noise noise (n_channel ds) of Inl e \<Rightarrow> (Inl e, ds) | Inr nz \<Rightarrow> (Inl ValueError, ds))"
  by (simp add: calc_rdm_crossnobis_def prepare_cv_None split: sum.splits)

lemma correlation_cv_pattern:
  assumes "map_of (obs_descriptors ds) ''pattern'' = Some p"
  shows "\<exists>r. calc_rdm_correlation_cv ds None = Inr r"
proof -
  let ?n = "length (measurements ds)"
  have s: "sequence_e (map (\<lambda>d. ebind (subset_obs ds ''pattern'' [d])
                           (\<lambda>data_subset. Inr (calc_magnitude_cv (measurements data_subset) True)))
                 (arange ?n)) =
           Inr (map (\<lambda>d. calc_magnitude_cv (select (map (\<lambda>l. l \<in> set [d]) p) (measurements ds)) True) (arange ?n))"
    by (rule sequence_e_all_Inr) (simp add: subset_obs_def assms Let_def)
  show ?thesis
    unfolding calc_rdm_correlation_cv_def parse_input_def Let_def
    by (simp add: s pair_loop_pure_choose del: One_nat_def)
qed

lemma correlation_cv_AAABBB: "calc_rdm_correlation_cv ds_AAABBB None = Inl KeyError"
  by (simp add: calc_rdm_correlation_cv_def ds_AAABBB_def parse_input_def arange_def subset_obs_def upt_conv_Cons)

lemma correlation_cv_empty: "calc_rdm_correlation_cv ds_empty None = Inr \<lparr>dissimilarities = [Condensed []],
   dissimilarity_measure = ''correlation_cv'', rdm_descriptors = [], pattern_descriptors = [(''pattern'', [])],
   more_descriptors = []\<rparr>"
  by (simp add: calc_rdm_correlation_cv_def ds_empty_def parse_input_def arange_def RDMs_def set_pattern_def)

text \<open>
  C2. The claim that each of crossnobis, Poisson-CV and correlation-CV raises an explicit
  error when the descriptor is \<^verbatim>\<open>None\<close> fails on the code for correlation-CV, which
  has no such test. On a dataset with an observation descriptor named \<^verbatim>\<open>pattern\<close> it
  returns an RDM, on a dataset without observations it returns an empty RDM, and on a
  dataset without that descriptor the first \<^verbatim>\<open>subset_obs\<close> raises \<^verbatim>\<open>KeyError\<close>.
  Poisson-CV and crossnobis raise the \<^verbatim>\<open>ValueError\<close> on the same input and leave the
  dataset as it was.
\<close>

theorem correlation_cv_no_descriptor_test:
  "(\<exists>r. calc_rdm_correlation_cv ds_pattern None = Inr r)
   \<and> calc_rdm_correlation_cv ds_AAABBB None = Inl KeyError
   \<and> (\<exists>r. calc_rdm_correlation_cv ds_empty None = Inr r)
   \<and> calc_rdm_poisson_cv ds_pattern None 1 (1 / 10) None = (Inl ValueError, ds_pattern)
   \<and> calc_rdm_crossnobis minv ds_pattern None NoNoise None = (Inl ValueError, ds_pattern)"
proof -
  have "map_of (obs_descriptors ds_pattern) ''pattern'' = Some [Num 0, Num 0, Num 1, Num 1]"
    by (simp add: ds_pattern_def)
  then have "\<exists>r. calc_rdm_correlation_cv ds_pattern None = Inr r"
    by (rule correlation_cv_pattern)
  moreover have "calc_rdm_crossnobis minv ds_pattern None NoNoise None = (Inl ValueError, ds_pattern)"
    by (simp add: crossnobis_None)
  ultimately show ?thesis
    using correlation_cv_AAABBB correlation_cv_empty poisson_cv_None by simp
qed

section \<open>The cross-validated Poisson estimator\<close>

lemma poisson_cv_loop_last:
  assumes "folds \<noteq> []"
    and "poisson_cv_loop ds d pl pw c cv_folds folds rdm = Inr res"
  shows "\<exists>v. poisson_cv_fold ds d pl pw c cv_folds (last folds) = Inr v \<and> res = Some v"
  using assms
proof (induction folds arbitrary: rdm)
  case Nil
  then show ?case by simp
next
  case (Cons f folds)
  then show ?case by (cases folds) (auto split: sum.splits)
qed

lemma counts_prepare: "prepare_cv ds_counts (Some ''conds'') (Some ''run'') = (Inr (''conds'', ''run''), ds_counts_sorted)"
  by (simp add: prepare_cv_def ds_counts_def ds_counts_sorted_def sort_by_def argsort_def upt_conv_Cons)

lemma counts_folds: "cv_folds_of ds_counts_sorted ''run'' = Inr [Num 0, Num 1]"
  by (simp add: cv_folds_of_def ds_counts_sorted_def np_unique_def)

lemma counts_fold0: "poisson_cv_fold ds_counts_sorted ''conds'' 1 0 ''run'' [Num 0, Num 1] (Num 0) = Inr [ln 3]"
  by (simp add: poisson_cv_fold_def ds_counts_sorted_def eval_defs)

lemma counts_fold1: "poisson_cv_fold ds_counts_sorted ''conds'' 1 0 ''run'' [Num 0, Num 1] (Num 1) = Inr [2 * ln 2]"
  by (simp add: poisson_cv_fold_def ds_counts_sorted_def eval_defs)

lemma counts_result: "\<exists>r. calc_rdm_poisson_cv ds_counts (Some ''conds'') 1 0 (Some ''run'') = (Inr r, ds_counts_sorted)
    \<and> dissimilarities r = [Condensed [2 * ln 2]]"
  by (simp add: calc_rdm_poisson_cv_def counts_prepare poisson_cv_result_def counts_folds counts_fold0 counts_fold1 RDMs_def set_pattern_def)
     (simp add: average_dataset_by_def ds_counts_sorted_def Let_def)

text \<open>
  C10. Whenever \<^verbatim>\<open>calc_rdm_poisson_cv\<close> returns, the fold descriptor of the sorted
  dataset has at least one fold and the returned dissimilarity vector is the estimate of
  the last round of the loop alone: the test side is the last fold in \<^verbatim>\<open>np.unique\<close>
  order, the training side the average over all other folds. The estimates of the earlier
  rounds do not enter the result.
\<close>

theorem poisson_cv_last_fold_only:
  assumes "calc_rdm_poisson_cv ds descriptor prior_lambda prior_weight cv_descriptor = (Inr r, ds')"
  shows "\<exists>d c cv_folds v.
           prepare_cv ds descriptor cv_descriptor = (Inr (d, c), ds')
           \<and> cv_folds_of ds' c = Inr cv_folds
           \<and> cv_folds \<noteq> []
           \<and> poisson_cv_fold ds' d prior_lambda prior_weight c cv_folds (last cv_folds) = Inr v
           \<and> dissimilarities r = [Condensed v]"
proof -
  from assms obtain d c where p: "prepare_cv ds descriptor cv_descriptor = (Inr (d, c), ds')"
    and r: "poisson_cv_result ds' d prior_lambda prior_weight c = Inr r"
    by (auto simp: calc_rdm_poisson_cv_def split: prod.splits sum.splits)
  from r obtain cv_folds res v desc where f: "cv_folds_of ds' c = Inr cv_folds"
    and l: "poisson_cv_loop ds' d prior_lambda prior_weight c cv_folds cv_folds None = Inr res"
    and v: "res = Some v"
    and rr: "r = set_pattern d desc (RDMs (Condensed v) ''poisson_cv'' [] (descriptors ds'))"
    unfolding poisson_cv_result_def
    by (auto simp: ebind_eq_Inr split: option.splits)
  have ne: "cv_folds \<noteq> []" using l v by (cases cv_folds) auto
  then obtain v' where "poisson_cv_fold ds' d prior_lambda prior_weight c cv_folds (last cv_folds) = Inr v'"
    "res = Some v'"
    using poisson_cv_loop_last [OF ne l] by blast
  then show ?thesis
    using p f ne v rr by (auto simp: RDMs_def set_pattern_def)
qed

theorem poisson_cv_last_fold_only_witness:
  "(\<exists>r. calc_rdm_poisson_cv ds_counts (Some ''conds'') 1 0 (Some ''run'') = (Inr r, ds_counts_sorted)
       \<and> dissimilarities r = [Condensed [2 * ln 2]])
   \<and> cv_folds_of ds_counts_sorted ''run'' = Inr [Num 0, Num 1]
   \<and> poisson_cv_fold ds_counts_sorted ''conds'' 1 0 ''run'' [Num 0, Num 1] (Num 0) = Inr [ln 3]
   \<and> poisson_cv_fold ds_counts_sorted ''conds'' 1 0 ''run'' [Num 0, Num 1] (Num 1) = Inr [2 * ln 2]"
proof -
  obtain r where r: "calc_rdm_poisson_cv ds_counts (Some ''conds'') 1 0 (Some ''run'') = (Inr r, ds_counts_sorted)"
    using counts_result by blast
  obtain d c cv_folds v where
    "prepare_cv ds_counts (Some ''conds'') (Some ''run'') = (Inr (d, c), ds_counts_sorted)"
    "cv_folds_of ds_counts_sorted c = Inr cv_folds"
    "poisson_cv_fold ds_counts_sorted d 1 0 c cv_folds (last cv_folds) = Inr v"
    "dissimilarities r = [Condensed v]"
    using poisson_cv_last_fold_only [OF r] by blast
  then have "dissimilarities r = [Condensed [2 * ln 2]]"
    using counts_prepare counts_folds counts_fold1 by auto
  then show ?thesis using r counts_folds counts_fold0 counts_fold1 by blast
qed

section \<open>The movie orchestrator on collections\<close>

lemma movie_single_sample: "map_sum id dissimilarities
     (calc_rdm_movie one_sample_ops minv (Single (''t'', ds_square)) ''euclidean'' (Some ''conds'') NoNoise
        None 1 (1 / 10) ''t'' None) = Inr [Condensed [1 / 2, 1 / 2, 1, 1, 1 / 2, 1 / 2]]"
proof -
  obtain r where r: "calc_rdm_euclid ds_square (Some ''conds'') = Inr r"
    "dissimilarities r = [Condensed [1 / 2, 1 / 2, 1, 1, 1 / 2, 1 / 2]]"
    using euclid_square by (cases "calc_rdm_euclid ds_square (Some ''conds'')") auto
  show ?thesis
    by (simp add: movie_single_def one_sample_ops_def calc_rdm_single_def r concat_rdms_def)
qed

lemma movie_collection_sample: "calc_rdm_movie one_sample_ops minv (Coll [Single (''t'', ds_square)]) ''euclidean'' (Some ''conds'') NoNoise
        None 1 (1 / 10) ''t'' None = Inl KeyError"
  by (simp add: movie_single_def one_sample_ops_def noise_for_def)

text \<open>
  C8. The claim that a collection is processed with the same call for every element fails
  on the code for \<^verbatim>\<open>calc_rdm_movie\<close>: the result for a collection does not depend on
  the fold descriptor, the prior parameters, the time descriptor or the bins of the call,
  because every element is processed with the defaults of these parameters. A collection
  of one dataset whose time descriptor is named \<^verbatim>\<open>t\<close> raises \<^verbatim>\<open>KeyError\<close> when called
  with that name, while the dataset alone yields its RDM.
\<close>

theorem calc_rdm_movie_collection_defaults:
  "calc_rdm_movie ops minv (Coll dsets) method descriptor noise cv_descriptor prior_lambda prior_weight
      time_descriptor bins =
   calc_rdm_movie ops minv (Coll dsets) method descriptor noise None 1 (1 / 10) ''time'' None
   \<and> calc_rdm_movie ops minv (Coll [Single d]) method descriptor NoNoise cv_descriptor prior_lambda
        prior_weight time_descriptor bins =
      ebind (movie_single ops minv d method descriptor NoNoise None 1 (1 / 10) ''time'' None)
        (\<lambda>rdm. concat_rdms [rdm])
   \<and> map_sum id dissimilarities
        (calc_rdm_movie one_sample_ops minv (Single (''t'', ds_square)) ''euclidean'' (Some ''conds'')
           NoNoise None 1 (1 / 10) ''t'' None) =
      Inr [Condensed [1 / 2, 1 / 2, 1, 1, 1 / 2, 1 / 2]]
   \<and> calc_rdm_movie one_sample_ops minv (Coll [Single (''t'', ds_square)]) ''euclidean''
        (Some ''conds'') NoNoise None 1 (1 / 10) ''t'' None = Inl KeyError"
proof -
  have "calc_rdm_movie ops minv (Coll [Single d]) method descriptor NoNoise cv_descriptor prior_lambda
        prior_weight time_descriptor bins =
      ebind (movie_single ops minv d method descriptor NoNoise None 1 (1 / 10) ''time'' None)
        (\<lambda>rdm. concat_rdms [rdm])"
    by (cases "movie_single ops minv d method descriptor NoNoise None 1 (1 / 10) ''time'' None")
       (simp_all add: noise_for_def)
  then show ?thesis using movie_single_sample movie_collection_sample by simp
qed

section \<open>Crossnobis with one noise matrix per fold\<close>

lemma filter_less_upt: "filter (\<lambda>j. i < j) [0..<n] = [Suc i..<n]"
proof (induction n)
  case 0
  then show ?case by simp
next
  case (Suc n)
  then show ?case by (cases "i < n") (simp_all add: upt_rec [of n "Suc n"] upt_conv_Nil)
qed

lemma fold_pairs_concat: "fold_pairs n = concat (map (\<lambda>i. map (Pair i) [Suc i..<n]) [0..<n])"
proof -
  have "filter (\<lambda>(i, j). i < j) (List.product xs [0..<n]) =
          concat (map (\<lambda>i. map (Pair i) [Suc i..<n]) xs)" for xs
    by (induction xs) (simp_all add: filter_map comp_def filter_less_upt)
  then show ?thesis by (simp add: fold_pairs_def)
qed

lemma crossnobis_collect_Inr:
  assumes "crossnobis_collect minv ds d noise c cv_folds is (ms0, vs0) = Inr (ms, vs)"
  shows "\<exists>ms1 vs1. ms = ms0 @ ms1 \<and> vs = vs0 @ vs1 \<and> length ms1 = length is \<and> length vs1 = length is \<and>
           (\<forall>k<length is. fold_average ds d c (cv_folds ! (is ! k)) = Inr (ms1 ! k) \<and>
                ebind (noise_item noise (is ! k)) (linalg_inv minv) = Inr (vs1 ! k))"
  using assms
proof (induction "is" arbitrary: ms0 vs0)
  case Nil
  then show ?case by simp
next
  case (Cons i "is")
  from Cons.prems obtain data m x y v where
    s: "subset_obs ds c [cv_folds ! i] = Inr data"
    and a: "average_dataset_by data d = Inr (m, x, y)"
    and n: "ebind (noise_item noise i) (linalg_inv minv) = Inr v"
    and rest: "crossnobis_collect minv ds d noise c cv_folds is (ms0 @ [m], vs0 @ [v]) = Inr (ms, vs)"
    by (auto split: sum.splits)
  from Cons.IH [OF rest] obtain ms1 vs1 where
    i: "ms = (ms0 @ [m]) @ ms1" "vs = (vs0 @ [v]) @ vs1" "length ms1 = length is" "length vs1 = length is"
      "\<forall>k<length is. fold_average ds d c (cv_folds ! (is ! k)) = Inr (ms1 ! k) \<and>
                ebind (noise_item noise (is ! k)) (linalg_inv minv) = Inr (vs1 ! k)"
    by blast
  have f: "fold_average ds d c (cv_folds ! i) = Inr m"
    using s a by (simp add: fold_average_def)
  have "\<forall>k<length (i # is). fold_average ds d c (cv_folds ! ((i # is) ! k)) = Inr ((m # ms1) ! k) \<and>
                ebind (noise_item noise ((i # is) ! k)) (linalg_inv minv) = Inr ((v # vs1) ! k)"
    using f n i(5) by (auto simp: nth_Cons split: nat.splits)
  then show ?case
    using i(1-4) by (intro exI [of _ "m # ms1"] exI [of _ "v # vs1"]) simp
qed

lemma crossnobis_pairs_inner_Inr:
  assumes "crossnobis_pairs_inner minv ms vs i js rdms0 = Inr rdms"
    and "i \<notin> set js"
  shows "\<exists>new. rdms = rdms0 @ new \<and>
           map (\<lambda>j. ebind (minv (mat_add (vs ! i) (vs ! j))) (calc_rdm_crossnobis_single (ms ! i) (ms ! j))) js
             = map Inr new"
  using assms
proof (induction js arbitrary: rdms0)
  case Nil
  then show ?case by simp
next
  case (Cons j js)
  from Cons.prems obtain rdm where
    r: "ebind (minv (mat_add (vs ! i) (vs ! j))) (calc_rdm_crossnobis_single (ms ! i) (ms ! j)) = Inr rdm"
    and rest: "crossnobis_pairs_inner minv ms vs i js (rdms0 @ [rdm]) = Inr rdms"
    by (auto split: sum.splits)
  from Cons.IH [OF rest] Cons.prems(2) obtain new where
    "rdms = (rdms0 @ [rdm]) @ new"
    "map (\<lambda>j. ebind (minv (mat_add (vs ! i) (vs ! j))) (calc_rdm_crossnobis_single (ms ! i) (ms ! j))) js
             = map Inr new"
    by auto
  then show ?case using r by (intro exI [of _ "rdm # new"]) simp
qed

lemma crossnobis_pairs_Inr:
  assumes "crossnobis_pairs minv ms vs n is rdms0 = Inr rdms"
  shows "\<exists>new. rdms = rdms0 @ new \<and>
           map (\<lambda>(i, j). ebind (minv (mat_add (vs ! i) (vs ! j))) (calc_rdm_crossnobis_single (ms ! i) (ms ! j)))
               (concat (map (\<lambda>i. map (Pair i) [Suc i..<n]) is))
             = map Inr new"
  using assms
proof (induction "is" arbitrary: rdms0)
  case Nil
  then show ?case by simp
next
  case (Cons i "is")
  from Cons.prems obtain rdms1 where
    inner: "crossnobis_pairs_inner minv ms vs i [Suc i..<n] rdms0 = Inr rdms1"
    and rest: "crossnobis_pairs minv ms vs n is rdms1 = Inr rdms"
    by (auto split: sum.splits)
  from crossnobis_pairs_inner_Inr [OF inner] obtain new1 where
    n1: "rdms1 = rdms0 @ new1"
    "map (\<lambda>j. ebind (minv (mat_add (vs ! i) (vs ! j))) (calc_rdm_crossnobis_single (ms ! i) (ms ! j))) [Suc i..<n]
             = map Inr new1"
    by auto
  from Cons.IH [OF rest] obtain new2 where
    n2: "rdms = rdms1 @ new2"
    "map (\<lambda>(i, j). ebind (minv (mat_add (vs ! i) (vs ! j))) (calc_rdm_crossnobis_single (ms ! i) (ms ! j)))
               (concat (map (\<lambda>i. map (Pair i) [Suc i..<n]) is))
             = map Inr new2"
    by blast
  show ?case
    using n1 n2 by (intro exI [of _ "new1 @ new2"]) (simp add: comp_def)
qed







section \<open>What the estimators change\<close>

lemma prepare_cv_effect: "cv_side_effect ds descriptor cv_descriptor (snd (prepare_cv ds descriptor cv_descriptor))"
  unfolding cv_side_effect_def prepare_cv_def with_default_folds_def
  by (auto split: option.splits sum.splits)

lemma crossnobis_effect:
  "cv_side_effect ds descriptor cv_descriptor (snd (calc_rdm_crossnobis minv ds descriptor noise cv_descriptor))"
proof (cases "check_noise noise (n_channel ds)")
  case (Inl e)
  then show ?thesis by (simp add: calc_rdm_crossnobis_def cv_side_effect_def)
next
  case (Inr nz)
  then have "snd (calc_rdm_crossnobis minv ds descriptor noise cv_descriptor) =
      snd (prepare_cv ds descriptor cv_descriptor)"
    by (simp add: calc_rdm_crossnobis_def split: prod.splits sum.splits)
  then show ?thesis using prepare_cv_effect [of ds descriptor cv_descriptor] by simp
qed

lemma poisson_cv_effect:
  "cv_side_effect ds descriptor cv_descriptor (snd (calc_rdm_poisson_cv ds descriptor pl pw cv_descriptor))"
proof -
  have "snd (calc_rdm_poisson_cv ds descriptor pl pw cv_descriptor) =
      snd (prepare_cv ds descriptor cv_descriptor)"
    by (simp add: calc_rdm_poisson_cv_def split: prod.splits sum.splits)
  then show ?thesis using prepare_cv_effect [of ds descriptor cv_descriptor] by simp
qed


lemma cv_methods_effect:
  "cv_side_effect ds descriptor cv_descriptor (snd (calc_rdm_single minv ds method descriptor noise cv_descriptor pl pw))"
  using crossnobis_effect poisson_cv_effect
  by (simp add: calc_rdm_single_def cv_side_effect_def)








section \<open>The length of the dissimilarity vectors\<close>

lemma average_dataset_by_Inr:
  assumes "average_dataset_by ds key = Inr (ms, desc, cnt)"
  shows "\<exists>conds. map_of (obs_descriptors ds) key = Some conds \<and> desc = np_unique conds
           \<and> length ms = length desc"
  using assms by (auto simp: average_dataset_by_def Let_def split: option.splits)

lemma parse_input_lengths:
  assumes "parse_input ds descriptor = Inr (ms, desc, d)"
  shows "length ms = length desc"
proof (cases descriptor)
  case None
  then show ?thesis using assms by (auto simp: parse_input_def arange_def)
next
  case (Some k)
  then obtain ms' desc' cnt where "average_dataset_by ds k = Inr (ms', desc', cnt)" "ms' = ms" "desc' = desc"
    using assms by (auto simp: parse_input_def ebind_eq_Inr)
  then show ?thesis using average_dataset_by_Inr by blast
qed

lemma einsum_length_same:
  assumes "einsum_ij_ij_i A B = Inr e" and "length A = length B"
  shows "length e = length A"
  using assms by (auto simp: einsum_ij_ij_i_def)

lemma pairwise_length:
  assumes "calc_pairwise_differences ms = Inr diff"
  shows "length diff = length ms * (length ms - 1) div 2"
  using assms by (auto simp: calc_pairwise_differences_eq length_canonical_pairs)

lemma condensed_okI:
  assumes "length v = length desc * (length desc - 1) div 2"
  shows "condensed_ok (set_pattern d desc (RDMs (Condensed v) tag a b))"
  using assms by (simp add: condensed_ok_def set_pattern_def RDMs_def)

lemma condensed_ok_set_descriptor [simp]: "condensed_ok (set_descriptor k v r) = condensed_ok r"
  by (simp add: condensed_ok_def set_descriptor_def)

lemma euclid_condensed:
  assumes "calc_rdm_euclid ds descriptor = Inr r"
  shows "condensed_ok r"
proof -
  from assms obtain ms desc d diff e where
    p: "parse_input ds descriptor = Inr (ms, desc, d)"
    and df: "calc_pairwise_differences ms = Inr diff"
    and e: "einsum_ij_ij_i diff diff = Inr e"
    and r: "r = set_pattern d desc (RDMs (Condensed (map (\<lambda>x. x / real (ncols ms)) e)) ''euclidean'' [] (descriptors ds))"
    unfolding calc_rdm_euclid_def by (auto simp: ebind_eq_Inr Let_def)
  have "length e = length desc * (length desc - 1) div 2"
    using einsum_length_same [OF e] pairwise_length [OF df] parse_input_lengths [OF p] by simp
  then show ?thesis unfolding r by (intro condensed_okI) simp
qed

lemma poisson_condensed:
  assumes "calc_rdm_poisson ds descriptor pl pw = Inr r"
  shows "condensed_ok r"
proof -
  from assms obtain ms0 desc d diff diff_log e where
    p: "parse_input ds descriptor = Inr (ms0, desc, d)"
    and df: "calc_pairwise_differences (shrink pl pw ms0) = Inr diff"
    and dl: "calc_pairwise_differences (map (map ln) (shrink pl pw ms0)) = Inr diff_log"
    and e: "einsum_ij_ij_i diff diff_log = Inr e"
    and r: "r = set_pattern d desc (RDMs (Condensed (map (\<lambda>x. x / real (ncols (shrink pl pw ms0))) e)) ''poisson'' [] (descriptors ds))"
    unfolding calc_rdm_poisson_def by (auto simp: ebind_eq_Inr Let_def)
  have l: "length diff = length desc * (length desc - 1) div 2"
    "length diff_log = length desc * (length desc - 1) div 2"
    using pairwise_length [OF df] pairwise_length [OF dl] parse_input_lengths [OF p]
    by (simp_all add: shrink_def)
  then have "length e = length desc * (length desc - 1) div 2"
    using einsum_length_same [OF e] by simp
  then show ?thesis unfolding r by (intro condensed_okI) simp
qed

lemma correlation_cv_condensed:
  assumes "calc_rdm_correlation_cv ds descriptor = Inr r"
  shows "condensed_ok r"
  using assms unfolding calc_rdm_correlation_cv_def Let_def pair_loop_pure_choose
  by (auto simp: ebind_eq_Inr length_canonical_pairs choose_two dest: parse_input_lengths intro!: condensed_okI)

lemma correlation_square:
  assumes "calc_rdm_correlation ds descriptor = Inr r"
  shows "square_ok r"
proof -
  from assms obtain ms desc d where
    p: "parse_input ds descriptor = Inr (ms, desc, d)"
    and r: "dissimilarities r =
        [Square (map (\<lambda>a. map (\<lambda>b. 1 - dot a b) (map (\<lambda>r. map (\<lambda>x. x / sqrt (dot r r)) r) (map center ms)))
                   (map (\<lambda>r. map (\<lambda>x. x / sqrt (dot r r)) r) (map center ms)))]"
      "pattern_descriptors r = [(d, desc)]"
    unfolding calc_rdm_correlation_def
    by (auto simp: ebind_eq_Inr Let_def set_pattern_def RDMs_def)
  show ?thesis
    using parse_input_lengths [OF p] unfolding square_ok_def r
    by (simp add: list_all_iff)
qed

lemma transpose_rect:
  assumes "xs \<noteq> []" and "\<forall>r\<in>set xs. length r = n"
  shows "length (transpose xs) = n" and "\<forall>c\<in>set (transpose xs). length c = length xs"
proof -
  have rect: "length (xs ! i) = n" if "i < length xs" for i
    using assms(2) that by simp
  have eq: "transpose xs = map (\<lambda>i. map (\<lambda>j. xs ! j ! i) [0..<length xs]) [0..<n]"
    by (rule transpose_rectangle) (simp_all add: assms(1) rect)
  show "length (transpose xs) = n"
    unfolding eq by simp
  show "\<forall>c\<in>set (transpose xs). length c = length xs"
    unfolding eq by simp
qed

lemma matmul_rect:
  assumes "B \<noteq> []" and "\<forall>r\<in>set B. length r = k"
  shows "length (matmul A B) = length A" and "\<forall>r\<in>set (matmul A B). length r = k"
proof -
  have t: "length (transpose B) = k" by (rule transpose_rect(1) [OF assms])
  show "length (matmul A B) = length A" by (simp add: matmul_def)
  show "\<forall>r\<in>set (matmul A B). length r = k" by (simp add: matmul_def t)
qed

lemma weighted_rows:
  assumes a: "a \<noteq> []" and d: "diff \<noteq> []" and r: "\<forall>r\<in>set diff. length r = m" and m: "0 < m"
  shows "length (transpose (matmul a (transpose diff))) = length diff"
proof -
  have t1: "length (transpose diff) = m" by (rule transpose_rect(1) [OF d r])
  have t2: "\<forall>c\<in>set (transpose diff). length c = length diff" by (rule transpose_rect(2) [OF d r])
  have t3: "transpose diff \<noteq> []" using t1 m by (cases "transpose diff") simp_all
  have m1: "length (matmul a (transpose diff)) = length a" by (rule matmul_rect(1) [OF t3 t2])
  have m2: "\<forall>r\<in>set (matmul a (transpose diff)). length r = length diff" by (rule matmul_rect(2) [OF t3 t2])
  have m3: "matmul a (transpose diff) \<noteq> []" using m1 a by (cases "matmul a (transpose diff)") simp_all
  show ?thesis by (rule transpose_rect(1) [OF m3 m2])
qed

lemma einsum_length:
  assumes "einsum_ij_ij_i A B = Inr e" and "A \<noteq> [] \<Longrightarrow> length B = length A"
  shows "length e = length A"
  using assms by (cases "A = []") (auto simp: einsum_ij_ij_i_def split: if_splits)

lemma col_mean_length [simp]: "length (col_mean m A) = m"
  by (simp add: col_mean_def)

lemma average_rows:
  assumes "average_dataset_by ds key = Inr (ms, desc, cnt)"
  shows "\<forall>r\<in>set ms. length r = n_channel ds"
proof (cases "map_of (obs_descriptors ds) key")
  case None
  then show ?thesis using assms by (simp add: average_dataset_by_def)
next
  case (Some conds)
  then have "ms = map (\<lambda>v. col_mean (n_channel ds) (select (map ((=) v) conds) (measurements ds))) (np_unique conds)"
    using assms by (auto simp: average_dataset_by_def Let_def)
  then show ?thesis by simp
qed

lemma parse_input_rows:
  assumes "parse_input ds descriptor = Inr (ms, desc, d)"
    and "\<forall>r\<in>set (measurements ds). length r = n_channel ds"
  shows "\<forall>r\<in>set ms. length r = n_channel ds"
proof (cases descriptor)
  case None
  then show ?thesis using assms by (simp add: parse_input_def)
next
  case (Some k)
  then obtain cnt where "average_dataset_by ds k = Inr (ms, desc, cnt)"
    using assms(1) by (auto simp: parse_input_def ebind_eq_Inr)
  then show ?thesis by (rule average_rows)
qed

lemma pairwise_rows:
  assumes "calc_pairwise_differences ms = Inr diff" and "\<forall>r\<in>set ms. length r = m"
  shows "\<forall>r\<in>set diff. length r = m"
proof
  fix r assume "r \<in> set diff"
  then obtain i j where ij: "(i, j) \<in> set (canonical_pairs (length ms))" and r: "r = vsub (ms ! i) (ms ! j)"
    using assms(1) unfolding calc_pairwise_differences_eq by auto
  have "i < length ms" "j < length ms" using canonical_pairs_bounds [OF ij] by simp_all
  then have "length (ms ! i) = m" "length (ms ! j) = m" using assms(2) by simp_all
  then show "length r = m" unfolding r by (simp add: vsub_def)
qed

lemma mahalanobis_condensed:
  assumes "calc_rdm_mahalanobis ds descriptor noise = Inr r"
    and wf: "\<forall>r\<in>set (measurements ds). length r = n_channel ds" "0 < n_channel ds"
  shows "condensed_ok r"
proof (cases "noise = NoNoise")
  case True
  then show ?thesis using assms(1) by (simp add: calc_rdm_mahalanobis_def euclid_condensed)
next
  case False
  from assms(1) False obtain ms desc d nz diff diff2 e where
    p: "parse_input ds descriptor = Inr (ms, desc, d)"
    and c: "check_noise noise (n_channel ds) = Inr nz"
    and df: "calc_pairwise_differences ms = Inr diff"
    and d2: "(case nz of Arr2 a \<Rightarrow> Inr (transpose (matmul a (transpose diff))) | _ \<Rightarrow> Inl ValueError) = Inr diff2"
    and e2: "einsum_ij_ij_i diff diff2 = Inr e"
    and r: "r = set_descriptor ''noise'' (DNoise nz)
                    (set_pattern d desc
                       (RDMs (Condensed (map (\<lambda>x. x / real (ncols ms)) e)) ''Mahalanobis'' [] (descriptors ds)))"
    unfolding calc_rdm_mahalanobis_def
    by (auto simp: ebind_eq_Inr Let_def)
  from d2 obtain a where a: "nz = Arr2 a" and "diff2 = transpose (matmul a (transpose diff))"
    by (cases nz) auto
  with e2 have e: "einsum_ij_ij_i diff (transpose (matmul a (transpose diff))) = Inr e" by simp
  have "noise = Arr2 a" using c a check_noise_same by blast
  then have "length a = n_channel ds" using c by (auto simp: shape_def split: if_splits)
  then have ne: "a \<noteq> []" using wf(2) by auto
  have rows: "\<forall>r\<in>set diff. length r = n_channel ds"
    using pairwise_rows [OF df] parse_input_rows [OF p wf(1)] by blast
  have "length e = length diff"
    using e by (rule einsum_length) (rule weighted_rows [OF ne _ rows wf(2)])
  then have "length e = length desc * (length desc - 1) div 2"
    using pairwise_length [OF df] parse_input_lengths [OF p] by simp
  then show ?thesis unfolding r by (simp add: condensed_okI)
qed

lemma pair_loop_inner_length:
  "pair_loop_inner body i js (out, k) = Inr (out', k') \<Longrightarrow> length out' = length out"
proof (induction js arbitrary: out k)
  case Nil
  then show ?case by simp
next
  case (Cons j js)
  then show ?case by (fastforce split: sum.splits if_splits)
qed

lemma pair_loop_length:
  "pair_loop body n is (out, k) = Inr (out', k') \<Longrightarrow> length out' = length out"
proof (induction "is" arbitrary: out k)
  case Nil
  then show ?case by simp
next
  case (Cons i "is")
  from Cons.prems obtain out1 k1 where
    a: "pair_loop_inner body i [Suc i..<n] (out, k) = Inr (out1, k1)"
    and b: "pair_loop body n is (out1, k1) = Inr (out', k')"
    by (auto split: sum.splits)
  show ?case using pair_loop_inner_length [OF a] Cons.IH [OF b] by simp
qed

lemma length_np_unique: "length (np_unique xs) = card (set xs)"
  by (simp add: np_unique_def length_remdups_card_conv)

lemma set_np_unique [simp]: "set (np_unique xs) = set xs"
  by (simp add: np_unique_def)

lemma subset_obs_descriptor:
  assumes "subset_obs ds c vals = Inr data"
  shows "\<exists>folds. map_of (obs_descriptors ds) c = Some folds \<and>
           (\<forall>k. map_of (obs_descriptors data) k =
                  map_option (select (map (\<lambda>l. l \<in> set vals) folds)) (map_of (obs_descriptors ds) k))"
proof (cases "map_of (obs_descriptors ds) c")
  case None
  then show ?thesis using assms by (simp add: subset_obs_def)
next
  case (Some folds)
  then have "obs_descriptors data =
      map (\<lambda>(k, v). (k, select (map (\<lambda>l. l \<in> set vals) folds) v)) (obs_descriptors ds)"
    using assms by (auto simp: subset_obs_def Let_def)
  then show ?thesis using Some by (simp add: map_of_map)
qed

lemma fold_rows:
  assumes s: "subset_obs ds c vals = Inr data"
    and a: "average_dataset_by data d = Inr (m, x, y)"
    and conds: "map_of (obs_descriptors ds) d = Some conds"
    and folds: "map_of (obs_descriptors ds) c = Some folds"
    and full: "set (select (map (\<lambda>l. l \<in> set vals) folds) conds) = set conds"
  shows "length m = length (np_unique conds)"
proof -
  have "map_of (obs_descriptors data) d = Some (select (map (\<lambda>l. l \<in> set vals) folds) conds)"
    using subset_obs_descriptor [OF s] conds folds by simp
  then have "length m = length (np_unique (select (map (\<lambda>l. l \<in> set vals) folds) conds))"
    using average_dataset_by_Inr [OF a] by auto
  then show ?thesis using full by (simp add: length_np_unique)
qed

lemma train_mask:
  "map (\<lambda>l. l \<in> set (filter (\<lambda>g. g \<noteq> f) (np_unique folds))) folds = map (\<lambda>l. l \<noteq> f) folds"
  by (rule map_cong) auto

lemma crossnobis_fold_length:
  assumes v: "crossnobis_fold ds d nopt c (np_unique folds) f = Inr v"
    and conds: "map_of (obs_descriptors ds) d = Some conds"
    and folds: "map_of (obs_descriptors ds) c = Some folds"
    and full: "set (select (map (\<lambda>l. l \<noteq> f) folds) conds) = set conds"
  shows "length v = length (np_unique conds) * (length (np_unique conds) - 1) div 2"
proof -
  from v obtain data_train m x y body k where
    s: "subset_obs ds c (filter (\<lambda>g. g \<noteq> f) (np_unique folds)) = Inr data_train"
    and a: "average_dataset_by data_train d = Inr (m, x, y)"
    and l: "pair_loop body (length m) [0..<length m - 1]
              (replicate (length m * (length m - 1) div 2) 0, 0) = Inr (v, k)"
    unfolding crossnobis_fold_def by (auto simp: ebind_eq_Inr Let_def)
  have "length m = length (np_unique conds)"
    by (rule fold_rows [OF s a conds folds]) (simp only: train_mask full)
  then show ?thesis using pair_loop_length [OF l] by simp
qed

lemma mean_axis0_length:
  assumes "mean_axis0 rdms = Inr x" and "rdms \<noteq> []" and "\<forall>v\<in>set rdms. length v = k"
  shows "\<exists>w. x = Condensed w \<and> length w = k"
  using assms by (cases rdms) (auto simp: mean_axis0_def split: if_splits)

lemma cv_folds_of_Inr:
  "cv_folds_of ds c = Inr cv_folds \<Longrightarrow>
     \<exists>folds. map_of (obs_descriptors ds) c = Some folds \<and> cv_folds = np_unique folds"
  by (auto simp: cv_folds_of_def split: option.splits)

lemma folds_completeD:
  assumes "folds_complete conds folds" and "f \<in> set folds"
  shows "set (select (map (\<lambda>l. l = f) folds) conds) = set conds"
    and "set (select (map (\<lambda>l. l \<noteq> f) folds) conds) = set conds"
  using assms by (auto simp: folds_complete_def list_all_iff)

lemma crossnobis_loo_condensed:
  assumes r: "crossnobis_result minv ds d nz c = Inr r"
    and nz: "nz = NoNoise \<or> (\<exists>a. nz = Arr2 a)"
    and cc: "cv_complete ds d c"
  shows "condensed_ok r"
proof -
  from cc obtain conds folds where
    conds: "map_of (obs_descriptors ds) d = Some conds"
    and folds: "map_of (obs_descriptors ds) c = Some folds"
    and fc: "folds_complete conds folds"
    by (auto simp: cv_complete_def split: option.splits)
  from r obtain cv_folds rdms x m desc cnt where
    f: "cv_folds_of ds c = Inr cv_folds"
    and rd: "crossnobis_rdms minv ds d nz c cv_folds = Inr rdms"
    and mn: "mean_axis0 rdms = Inr x"
    and av: "average_dataset_by ds d = Inr (m, desc, cnt)"
    and rr: "r = set_descriptor ''cv_descriptor'' (DString c)
              (set_descriptor ''noise'' (DNoise nz)
                 (set_pattern d desc (RDMs x ''crossnobis'' [] (descriptors ds))))"
    unfolding crossnobis_result_def by (auto simp: ebind_eq_Inr)
  have cvf: "cv_folds = np_unique folds" using cv_folds_of_Inr [OF f] folds by simp
  have desc: "desc = np_unique conds" using average_dataset_by_Inr [OF av] conds by simp
  let ?k = "length desc * (length desc - 1) div 2"
  obtain nopt where sq: "sequence_e (map (crossnobis_fold ds d nopt c cv_folds) cv_folds) = Inr rdms"
    using rd nz by (auto simp: crossnobis_rdms_def)
  have m: "map (crossnobis_fold ds d nopt c cv_folds) cv_folds = map Inr rdms"
    using sq by (rule sequence_e_Inr)
  then have len: "length rdms = length cv_folds" by (metis length_map)
  have "set cv_folds = set folds" using cvf by simp
  moreover have "folds \<noteq> []" using fc by (simp add: folds_complete_def)
  ultimately have "cv_folds \<noteq> []" by (metis set_empty)
  then have ne: "rdms \<noteq> []" using len by auto
  have each: "\<forall>v\<in>set rdms. length v = ?k"
  proof
    fix v assume "v \<in> set rdms"
    then obtain i where i: "i < length rdms" "v = rdms ! i" by (auto simp: in_set_conv_nth)
    then have "crossnobis_fold ds d nopt c (np_unique folds) (cv_folds ! i) = Inr v"
      using m len cvf by (metis nth_map)
    moreover have "cv_folds ! i \<in> set folds" using i len cvf by (metis nth_mem set_np_unique)
    ultimately show "length v = ?k"
      using crossnobis_fold_length [OF _ conds folds] folds_completeD(2) [OF fc] desc by blast
  qed
  obtain w where "x = Condensed w" "length w = ?k"
    using mean_axis0_length [OF mn ne each] by blast
  then show ?thesis unfolding rr by (simp add: condensed_okI)
qed

lemma test_mask: "map (\<lambda>l. l \<in> set [f]) folds = map (\<lambda>l. l = f) folds"
  by simp

lemma poisson_cv_fold_length:
  assumes v: "poisson_cv_fold ds d pl pw c (np_unique folds) f = Inr v"
    and conds: "map_of (obs_descriptors ds) d = Some conds"
    and folds: "map_of (obs_descriptors ds) c = Some folds"
    and train: "set (select (map (\<lambda>l. l \<noteq> f) folds) conds) = set conds"
    and test: "set (select (map (\<lambda>l. l = f) folds) conds) = set conds"
  shows "length v = length (np_unique conds) * (length (np_unique conds) - 1) div 2"
proof -
  from v obtain data_test data_train train0 x y test0 x' y' diff diff_log e where
    st: "subset_obs ds c [f] = Inr data_test"
    and s: "subset_obs ds c (filter (\<lambda>g. g \<noteq> f) (np_unique folds)) = Inr data_train"
    and a: "average_dataset_by data_train d = Inr (train0, x, y)"
    and at: "average_dataset_by data_test d = Inr (test0, x', y')"
    and df: "calc_pairwise_differences (shrink pl pw train0) = Inr diff"
    and dl: "calc_pairwise_differences (map (map ln) (shrink pl pw test0)) = Inr diff_log"
    and e: "einsum_ij_ij_i diff diff_log = Inr e"
    and ve: "v = map (\<lambda>x. x / real (ncols (shrink pl pw train0))) e"
    unfolding poisson_cv_fold_def by (auto simp: ebind_eq_Inr Let_def)
  have n1: "length train0 = length (np_unique conds)"
    by (rule fold_rows [OF s a conds folds]) (simp only: train_mask train)
  have n2: "length test0 = length (np_unique conds)"
    by (rule fold_rows [OF st at conds folds]) (simp only: test_mask test)
  have "length diff = length (np_unique conds) * (length (np_unique conds) - 1) div 2"
    "length diff_log = length (np_unique conds) * (length (np_unique conds) - 1) div 2"
    using pairwise_length [OF df] pairwise_length [OF dl] n1 n2 by (simp_all add: shrink_def)
  then have "length e = length (np_unique conds) * (length (np_unique conds) - 1) div 2"
    using einsum_length_same [OF e] by simp
  then show ?thesis unfolding ve by simp
qed

lemma poisson_cv_condensed:
  assumes r: "poisson_cv_result ds d pl pw c = Inr r"
    and cc: "cv_complete ds d c"
  shows "condensed_ok r"
proof -
  from cc obtain conds folds where
    conds: "map_of (obs_descriptors ds) d = Some conds"
    and folds: "map_of (obs_descriptors ds) c = Some folds"
    and fc: "folds_complete conds folds"
    by (auto simp: cv_complete_def split: option.splits)
  from r obtain cv_folds res v m desc cnt where
    f: "cv_folds_of ds c = Inr cv_folds"
    and l: "poisson_cv_loop ds d pl pw c cv_folds cv_folds None = Inr res"
    and v: "res = Some v"
    and av: "average_dataset_by ds d = Inr (m, desc, cnt)"
    and rr: "r = set_pattern d desc (RDMs (Condensed v) ''poisson_cv'' [] (descriptors ds))"
    unfolding poisson_cv_result_def by (auto simp: ebind_eq_Inr split: option.splits)
  have cvf: "cv_folds = np_unique folds" using cv_folds_of_Inr [OF f] folds by simp
  have desc: "desc = np_unique conds" using average_dataset_by_Inr [OF av] conds by simp
  have "set cv_folds = set folds" using cvf by simp
  moreover have "folds \<noteq> []" using fc by (simp add: folds_complete_def)
  ultimately have ne: "cv_folds \<noteq> []" by (metis set_empty)
  then have "last cv_folds \<in> set folds" using cvf by (metis last_in_set set_np_unique)
  moreover have "poisson_cv_fold ds d pl pw c (np_unique folds) (last cv_folds) = Inr v"
    using poisson_cv_loop_last [OF ne l] v cvf by auto
  ultimately have "length v = length desc * (length desc - 1) div 2"
    using poisson_cv_fold_length [OF _ conds folds] folds_completeD [OF fc] desc by blast
  then show ?thesis unfolding rr by (rule condensed_okI)
qed

lemma crossnobis_list_parts:
  assumes "crossnobis_rdms minv ds d (NoiseList ns) c cv_folds = Inr rdms"
  shows "\<exists>ms vs. length ms = length cv_folds \<and> length vs = length cv_folds
    \<and> (\<forall>i<length cv_folds. fold_average ds d c (cv_folds ! i) = Inr (ms ! i)
                          \<and> i < length ns \<and> linalg_inv minv (ns ! i) = Inr (vs ! i))
    \<and> map (\<lambda>(i, j). ebind (minv (mat_add (vs ! i) (vs ! j)))
                        (calc_rdm_crossnobis_single (ms ! i) (ms ! j)))
          (fold_pairs (length cv_folds)) = map Inr rdms"
proof -
  let ?n = "length cv_folds"
  from assms obtain ms vs where
    col: "crossnobis_collect minv ds d (NoiseList ns) c cv_folds [0..<?n] ([], []) = Inr (ms, vs)"
    and prs: "crossnobis_pairs minv ms vs ?n [0..<?n] [] = Inr rdms"
    by (auto simp: crossnobis_rdms_def ebind_eq_Inr)
  from crossnobis_collect_Inr [OF col] have
    len: "length ms = ?n" "length vs = ?n"
    and each: "\<forall>k<?n. fold_average ds d c (cv_folds ! k) = Inr (ms ! k) \<and>
                ebind (noise_item (NoiseList ns) k) (linalg_inv minv) = Inr (vs ! k)"
    by auto
  have each': "\<forall>i<?n. fold_average ds d c (cv_folds ! i) = Inr (ms ! i)
                          \<and> i < length ns \<and> linalg_inv minv (ns ! i) = Inr (vs ! i)"
    using each by (auto simp: noise_item_def ebind_eq_Inr split: if_splits)
  from crossnobis_pairs_Inr [OF prs] have
    "map (\<lambda>(i, j). ebind (minv (mat_add (vs ! i) (vs ! j)))
                        (calc_rdm_crossnobis_single (ms ! i) (ms ! j)))
          (fold_pairs ?n) = map Inr rdms"
    by (simp add: fold_pairs_concat)
  then show ?thesis using len each' by blast
qed

lemma crossnobis_single_length:
  assumes v: "calc_rdm_crossnobis_single m1 m2 P = Inr v"
    and l: "length m2 = length m1"
    and rows: "\<forall>r\<in>set m2. length r = m" and m: "0 < m" and P: "P \<noteq> []"
  shows "length v = length m1 * (length m1 - 1) div 2"
proof -
  from v obtain diff_1 diff_2 e where
    d1: "calc_pairwise_differences m1 = Inr diff_1"
    and d2: "calc_pairwise_differences m2 = Inr diff_2"
    and e: "einsum_ij_ij_i diff_1 (transpose (matmul P (transpose diff_2))) = Inr e"
    and ve: "v = map (\<lambda>x. x / real (ncols m1)) e"
    unfolding calc_rdm_crossnobis_single_def einsum_kj_jk_k_def by (auto simp: ebind_eq_Inr)
  have len2: "length diff_2 = length diff_1"
    using pairwise_length [OF d1] pairwise_length [OF d2] l by simp
  have r2: "\<forall>r\<in>set diff_2. length r = m" by (rule pairwise_rows [OF d2 rows])
  have "length (transpose (matmul P (transpose diff_2))) = length diff_1" if "diff_1 \<noteq> []"
  proof -
    have "diff_2 \<noteq> []" using that len2 by (cases diff_2) simp_all
    then show ?thesis using weighted_rows [OF P _ r2 m] len2 by simp
  qed
  then have "length e = length diff_1" using e by (intro einsum_length)
  then show ?thesis unfolding ve using pairwise_length [OF d1] by simp
qed

lemma subset_obs_n_channel: "subset_obs ds c vals = Inr data \<Longrightarrow> n_channel data = n_channel ds"
  by (auto simp: subset_obs_def Let_def split: option.splits)

lemma fold_average_shape:
  assumes f: "fold_average ds d c f = Inr m"
    and conds: "map_of (obs_descriptors ds) d = Some conds"
    and folds: "map_of (obs_descriptors ds) c = Some folds"
    and test: "set (select (map (\<lambda>l. l = f) folds) conds) = set conds"
  shows "length m = length (np_unique conds)" and "\<forall>r\<in>set m. length r = n_channel ds"
proof -
  from f obtain data x y where
    s: "subset_obs ds c [f] = Inr data" and a: "average_dataset_by data d = Inr (m, x, y)"
    unfolding fold_average_def by (auto simp: ebind_eq_Inr)
  show "length m = length (np_unique conds)"
    by (rule fold_rows [OF s a conds folds]) (simp only: test_mask test)
  show "\<forall>r\<in>set m. length r = n_channel ds"
    using average_rows [OF a] subset_obs_n_channel [OF s] by simp
qed

lemma fold_pairs_bounds: "(i, j) \<in> set (fold_pairs n) \<Longrightarrow> i < j \<and> j < n"
  by (auto simp: fold_pairs_def)

lemma fold_pairs_nonempty: "2 \<le> n \<Longrightarrow> fold_pairs n \<noteq> []"
proof -
  assume "2 \<le> n"
  then have "(0, 1) \<in> set (fold_pairs n)" by (auto simp: fold_pairs_def)
  then show ?thesis by auto
qed

lemma select_nth:
  assumes "x \<in> set (select msk xs)"
  shows "\<exists>i. i < length msk \<and> i < length xs \<and> msk ! i \<and> xs ! i = x"
proof -
  from assms obtain b where "(b, x) \<in> set (filter fst (zip msk xs))"
    by (auto simp: select_def)
  then have "(True, x) \<in> set (zip msk xs)" by auto
  then show ?thesis by (auto simp: in_set_zip)
qed

lemma two_folds:
  assumes fc: "folds_complete conds folds"
  shows "2 \<le> length (np_unique folds)"
proof -
  from fc have ne: "folds \<noteq> []" and len: "length conds = length folds"
    by (simp_all add: folds_complete_def)
  then obtain f where f: "f \<in> set folds" by (cases folds) auto
  have "conds \<noteq> []" using ne len by auto
  then obtain x where "x \<in> set conds" by (cases conds) auto
  then have "x \<in> set (select (map (\<lambda>l. l \<noteq> f) folds) conds)"
    using folds_completeD(2) [OF fc f] by simp
  then obtain i where "i < length folds" "folds ! i \<noteq> f"
    using select_nth by fastforce
  then have "folds ! i \<in> set folds" "folds ! i \<noteq> f" by simp_all
  then have "{f, folds ! i} \<subseteq> set folds" "card {f, folds ! i} = 2" using f by auto
  then have "2 \<le> card (set folds)" by (metis card_mono List.finite_set)
  then show ?thesis by (simp add: length_np_unique)
qed

lemma check_noise_list_item:
  assumes "check_noise (NoiseList ns) n = Inr nz" and "i < length ns"
  shows "\<exists>x. check_noise (ns ! i) n = Inr x"
proof -
  from assms(1) obtain ns' where "sequence_e (map (\<lambda>x. check_noise x n) ns) = Inr ns'"
    by (auto split: sum.splits)
  then have m: "map (\<lambda>x. check_noise x n) ns = map Inr ns'" by (rule sequence_e_Inr)
  then have "length ns = length ns'" by (metis length_map)
  then have "check_noise (ns ! i) n = Inr (ns' ! i)"
    using m assms(2) by (metis nth_map)
  then show ?thesis by blast
qed

lemma variance_rows:
  assumes chk: "check_noise (NoiseList ns) n = Inr nz" and i: "i < length ns"
    and v: "linalg_inv minv (ns ! i) = Inr v"
    and minv: "\<And>a b. minv a = Inr b \<Longrightarrow> length b = length a"
  shows "length v = n"
proof -
  from v obtain a where a: "ns ! i = Arr2 a" "minv a = Inr v"
    by (cases "ns ! i") (auto simp: linalg_inv_def)
  obtain x where "check_noise (Arr2 a) n = Inr x"
    using check_noise_list_item [OF chk i] a(1) by auto
  then have "length a = n" by (auto simp: shape_def split: if_splits)
  then show ?thesis using minv [OF a(2)] by simp
qed

lemma crossnobis_list_condensed:
  assumes r: "crossnobis_result minv ds d (NoiseList ns) c = Inr r"
    and cc: "cv_complete ds d c"
    and chk: "check_noise (NoiseList ns) (n_channel ds) = Inr nz"
    and pos: "0 < n_channel ds"
    and minv: "\<And>a b. minv a = Inr b \<Longrightarrow> length b = length a"
  shows "condensed_ok r"
proof -
  from cc obtain conds folds where
    conds: "map_of (obs_descriptors ds) d = Some conds"
    and folds: "map_of (obs_descriptors ds) c = Some folds"
    and fc: "folds_complete conds folds"
    by (auto simp: cv_complete_def split: option.splits)
  from r obtain cv_folds rdms x m desc cnt where
    f: "cv_folds_of ds c = Inr cv_folds"
    and rd: "crossnobis_rdms minv ds d (NoiseList ns) c cv_folds = Inr rdms"
    and mn: "mean_axis0 rdms = Inr x"
    and av: "average_dataset_by ds d = Inr (m, desc, cnt)"
    and rr: "r = set_descriptor ''cv_descriptor'' (DString c)
              (set_descriptor ''noise'' (DNoise (NoiseList ns))
                 (set_pattern d desc (RDMs x ''crossnobis'' [] (descriptors ds))))"
    unfolding crossnobis_result_def by (auto simp: ebind_eq_Inr)
  have cvf: "cv_folds = np_unique folds" using cv_folds_of_Inr [OF f] folds by simp
  have desc: "desc = np_unique conds" using average_dataset_by_Inr [OF av] conds by simp
  let ?n = "length cv_folds"
  let ?k = "length desc * (length desc - 1) div 2"
  from crossnobis_list_parts [OF rd] obtain ms vs where
    len: "length ms = ?n" "length vs = ?n"
    and each: "\<forall>i<?n. fold_average ds d c (cv_folds ! i) = Inr (ms ! i)
                          \<and> i < length ns \<and> linalg_inv minv (ns ! i) = Inr (vs ! i)"
    and pairs: "map (\<lambda>(i, j). ebind (minv (mat_add (vs ! i) (vs ! j)))
                        (calc_rdm_crossnobis_single (ms ! i) (ms ! j)))
          (fold_pairs ?n) = map Inr rdms"
    by blast
  have lenr: "length rdms = length (fold_pairs ?n)"
    using arg_cong [OF pairs, of length] by simp
  have "2 \<le> ?n" using two_folds [OF fc] cvf by simp
  then have ne: "rdms \<noteq> []" using fold_pairs_nonempty lenr by (cases rdms) auto
  have shape: "length (ms ! i) = length desc \<and> (\<forall>row\<in>set (ms ! i). length row = n_channel ds)
                 \<and> length (vs ! i) = n_channel ds" if "i < ?n" for i
  proof -
    have fa: "fold_average ds d c (cv_folds ! i) = Inr (ms ! i)" and i: "i < length ns"
      and li: "linalg_inv minv (ns ! i) = Inr (vs ! i)"
      using each that by simp_all
    have "cv_folds ! i \<in> set folds" using that cvf by (metis nth_mem set_np_unique)
    then have t: "set (select (map (\<lambda>l. l = cv_folds ! i) folds) conds) = set conds"
      by (rule folds_completeD(1) [OF fc])
    show ?thesis
      using fold_average_shape [OF fa conds folds t] variance_rows [OF chk i li minv] desc
      by simp
  qed
  have eachv: "\<forall>v\<in>set rdms. length v = ?k"
  proof
    fix v assume "v \<in> set rdms"
    then obtain p where p: "p < length rdms" "v = rdms ! p" by (auto simp: in_set_conv_nth)
    obtain i j where ij: "fold_pairs ?n ! p = (i, j)" by (cases "fold_pairs ?n ! p")
    have "(i, j) \<in> set (fold_pairs ?n)" using p(1) lenr ij by (metis nth_mem)
    then have b: "i < ?n" "j < ?n" using fold_pairs_bounds by fastforce+
    have "map (\<lambda>(i, j). ebind (minv (mat_add (vs ! i) (vs ! j)))
                        (calc_rdm_crossnobis_single (ms ! i) (ms ! j)))
          (fold_pairs ?n) ! p = map Inr rdms ! p"
      using pairs by simp
    then have "ebind (minv (mat_add (vs ! i) (vs ! j)))
                 (calc_rdm_crossnobis_single (ms ! i) (ms ! j)) = Inr v"
      using p lenr ij by simp
    then obtain P where P: "minv (mat_add (vs ! i) (vs ! j)) = Inr P"
      and sv: "calc_rdm_crossnobis_single (ms ! i) (ms ! j) P = Inr v"
      by (auto simp: ebind_eq_Inr)
    have "length P = n_channel ds"
      using minv [OF P] shape [OF b(1)] shape [OF b(2)] by (simp add: mat_add_def)
    then have Pne: "P \<noteq> []" using pos by auto
    have "length v = length (ms ! i) * (length (ms ! i) - 1) div 2"
      using shape [OF b(1)] shape [OF b(2)]
      by (intro crossnobis_single_length [OF sv _ _ pos Pne]) simp_all
    then show "length v = ?k" using shape [OF b(1)] by simp
  qed
  obtain w where "x = Condensed w" "length w = ?k"
    using mean_axis0_length [OF mn ne eachv] by blast
  then show ?thesis unfolding rr by (simp add: condensed_okI)
qed

lemma map2_maps: "map2 f (map g xs) (map h xs) = map (\<lambda>x. f (g x) (h x)) xs"
  by (induction xs) simp_all

lemma einsum_maps:
  "einsum_ij_ij_i (map g xs) (map h xs) = Inr (map (\<lambda>x. dot (g x) (h x)) xs)"
  by (simp add: einsum_ij_ij_i_def map2_maps)

lemma euclid_form:
  assumes p: "parse_input ds descriptor = Inr (ms, desc, d)"
    and r: "calc_rdm_euclid ds descriptor = Inr r"
  shows "dissimilarities r =
     [Condensed (pairwise_entries
        (\<lambda>i j. dot (vsub (ms ! i) (ms ! j)) (vsub (ms ! i) (ms ! j)) / real (ncols ms))
        (length desc))]"
  using r parse_input_lengths [OF p] unfolding calc_rdm_euclid_def p calc_pairwise_differences_eq
  by (auto simp: einsum_same pairwise_entries_def RDMs_def set_pattern_def case_prod_unfold comp_def)

lemma poisson_form:
  assumes p: "parse_input ds descriptor = Inr (ms0, desc, d)"
    and r: "calc_rdm_poisson ds descriptor pl pw = Inr r"
  shows "dissimilarities r =
     [Condensed (pairwise_entries
        (\<lambda>i j. dot (vsub (shrink pl pw ms0 ! i) (shrink pl pw ms0 ! j))
                    (vsub (map (map ln) (shrink pl pw ms0) ! i) (map (map ln) (shrink pl pw ms0) ! j))
               / real (ncols (shrink pl pw ms0)))
        (length desc))]"
proof -
  have l: "length (shrink pl pw ms0) = length desc"
    using parse_input_lengths [OF p] by (simp add: shrink_def)
  show ?thesis
    using r unfolding calc_rdm_poisson_def p calc_pairwise_differences_eq
    by (auto simp: Let_def l einsum_maps pairwise_entries_def RDMs_def set_pattern_def
        case_prod_unfold comp_def)
qed

lemma transpose_rect_eq:
  assumes "xs \<noteq> []" and "\<forall>r\<in>set xs. length r = n"
  shows "transpose xs = map (\<lambda>i. map (\<lambda>j. xs ! j ! i) [0..<length xs]) [0..<n]"
proof -
  have rect: "length (xs ! i) = n" if "i < length xs" for i
    using assms(2) that by simp
  show ?thesis by (rule transpose_rectangle) (simp_all add: assms(1) rect)
qed

lemma transpose_twice:
  assumes d: "xs \<noteq> []" and r: "\<forall>r\<in>set xs. length r = m" and m: "0 < m"
  shows "transpose (transpose xs) = xs"
proof -
  let ?t = "transpose xs"
  have t1: "length ?t = m" by (rule transpose_rect(1) [OF d r])
  have t2: "\<forall>c\<in>set ?t. length c = length xs" by (rule transpose_rect(2) [OF d r])
  have t3: "?t \<noteq> []" using t1 m by (cases ?t) simp_all
  have e1: "?t = map (\<lambda>i. map (\<lambda>j. xs ! j ! i) [0..<length xs]) [0..<m]"
    by (rule transpose_rect_eq [OF d r])
  have e2: "transpose ?t = map (\<lambda>i. map (\<lambda>j. ?t ! j ! i) [0..<length ?t]) [0..<length xs]"
    by (rule transpose_rect_eq [OF t3 t2])
  show ?thesis
  proof (rule nth_equalityI)
    show "length (transpose ?t) = length xs" by (subst e2) simp
  next
    fix i assume "i < length (transpose ?t)"
    then have i: "i < length xs" by (subst (asm) e2) simp
    then have li: "length (xs ! i) = m" using r by simp
    have "transpose ?t ! i = map (\<lambda>j. ?t ! j ! i) [0..<m]"
      using i t1 by (subst e2) simp
    also have "\<dots> = map (\<lambda>j. xs ! i ! j) [0..<m]"
      using i by (subst e1) simp
    also have "\<dots> = xs ! i" using li by (metis map_nth)
    finally show "transpose ?t ! i = xs ! i" .
  qed
qed

lemma weighted_diff:
  assumes a: "a \<noteq> []" and d: "diff \<noteq> []" and r: "\<forall>r\<in>set diff. length r = m" and m: "0 < m"
  shows "transpose (matmul a (transpose diff)) = map (mat_vec a) diff"
proof -
  let ?M = "matmul a (transpose diff)"
  have M: "?M = map (\<lambda>r. map (dot r) diff) a"
    by (simp add: matmul_def transpose_twice [OF d r m])
  have ne: "?M \<noteq> []" using a by (simp add: M)
  have rows: "\<forall>r\<in>set ?M. length r = length diff" by (simp add: M)
  have e: "transpose ?M = map (\<lambda>i. map (\<lambda>j. ?M ! j ! i) [0..<length ?M]) [0..<length diff]"
    by (rule transpose_rect_eq [OF ne rows])
  show ?thesis
  proof (rule nth_equalityI)
    show "length (transpose ?M) = length (map (mat_vec a) diff)" by (subst e) simp
  next
    fix k assume "k < length (transpose ?M)"
    then have k: "k < length diff" by (subst (asm) e) simp
    have "transpose ?M ! k = map (\<lambda>j. ?M ! j ! k) [0..<length ?M]"
      using k by (subst e) simp
    also have "\<dots> = map (\<lambda>j. dot (a ! j) (diff ! k)) [0..<length a]"
      using k by (simp add: M)
    also have "\<dots> = map (\<lambda>r. dot r (diff ! k)) (map ((!) a) [0..<length a])"
      by (simp add: comp_def)
    also have "\<dots> = mat_vec a (diff ! k)" by (simp add: map_nth mat_vec_def)
    finally show "transpose ?M ! k = map (mat_vec a) diff ! k" using k by simp
  qed
qed

lemma einsum_map_right:
  "einsum_ij_ij_i xs (map h xs) = Inr (map (\<lambda>x. dot x (h x)) xs)"
  using einsum_maps [of "\<lambda>x. x" xs h] by simp

lemma weighted_empty: "transpose (matmul a (transpose [])) = []"
proof -
  have "matmul a (transpose []) = map (\<lambda>r. []) a" by (simp add: matmul_def)
  moreover have "transpose (map (\<lambda>r. []) a) = []" for a :: matrix
    by (induction a) simp_all
  ultimately show ?thesis by simp
qed

lemma mahalanobis_form:
  assumes p: "parse_input ds descriptor = Inr (ms, desc, d)"
    and r: "calc_rdm_mahalanobis ds descriptor (Arr2 a) = Inr r"
    and wf: "\<forall>r\<in>set (measurements ds). length r = n_channel ds" "0 < n_channel ds"
  shows "dissimilarities r =
     [Condensed (pairwise_entries
        (\<lambda>i j. dot (vsub (ms ! i) (ms ! j)) (mat_vec a (vsub (ms ! i) (ms ! j))) / real (ncols ms))
        (length desc))]"
proof -
  let ?diff = "map (\<lambda>(i, j). vsub (ms ! i) (ms ! j)) (canonical_pairs (length ms))"
  have df: "calc_pairwise_differences ms = Inr ?diff" by (rule calc_pairwise_differences_eq)
  from r obtain e where
    c: "check_noise (Arr2 a) (n_channel ds) = Inr (Arr2 a)"
    and e: "einsum_ij_ij_i ?diff (transpose (matmul a (transpose ?diff))) = Inr e"
    and d: "dissimilarities r = [Condensed (map (\<lambda>x. x / real (ncols ms)) e)]"
    unfolding calc_rdm_mahalanobis_def p
    by (auto simp: calc_pairwise_differences_eq ebind_eq_Inr Let_def RDMs_def set_pattern_def
          set_descriptor_def split: if_splits)
  have "length a = n_channel ds" using c by (auto simp: shape_def split: if_splits)
  then have ne: "a \<noteq> []" using wf(2) by auto
  have rows: "\<forall>r\<in>set ?diff. length r = n_channel ds"
    using pairwise_rows [OF df] parse_input_rows [OF p wf(1)] by blast
  have "transpose (matmul a (transpose ?diff)) = map (mat_vec a) ?diff"
  proof (cases "?diff = []")
    case True
    then show ?thesis by (simp only: weighted_empty list.map)
  next
    case False
    then show ?thesis by (rule weighted_diff [OF ne _ rows wf(2)])
  qed
  then have "einsum_ij_ij_i ?diff (map (mat_vec a) ?diff) = Inr e"
    using e by (simp only:)
  then have "e = map (\<lambda>x. dot x (mat_vec a x)) ?diff"
    by (simp only: einsum_map_right sum.inject)
  then show ?thesis
    using d parse_input_lengths [OF p]
    by (simp add: pairwise_entries_def case_prod_unfold comp_def)
qed

lemma correlation_cv_form:
  assumes p: "parse_input ds descriptor = Inr (ms, desc, d)"
    and r: "calc_rdm_correlation_cv ds descriptor = Inr r"
  shows "\<exists>mags. sequence_e
              (map (\<lambda>l. ebind (subset_obs ds d [l])
                           (\<lambda>data_subset. Inr (calc_magnitude_cv (measurements data_subset) True)))
                 desc) = Inr mags
     \<and> dissimilarities r =
        [Condensed (pairwise_entries
           (\<lambda>i j. 1 - dot (map center ms ! i) (map center ms ! j) / (mags ! i * mags ! j))
           (length desc))]"
  using r unfolding calc_rdm_correlation_cv_def p Let_def pair_loop_pure_choose
  by (auto simp: ebind_eq_Inr pairwise_entries_def RDMs_def set_pattern_def)

end
